theory Spec2Isabelle
  imports Main "HOL-Library.Word"
begin

unbundle bit_operations_syntax

section \<open>Data model\<close>

text \<open>
  The kernel of \<^verbatim>\<open>native_image_processor.cpp\<close> reads three byte planes through
  \<^verbatim>\<open>const uint8_t*\<close> pointers and writes one \<^verbatim>\<open>uint8_t*\<close> buffer. A pointer
  is modelled as the memory seen from it: a function from the C index to the byte stored
  there. The C++ \<^verbatim>\<open>int\<close> values (geometry, indices, channel values) are modelled as
  \<open>int\<close>: signed overflow is undefined in C++, so the model describes the runs whose index
  arithmetic stays inside the 32-bit range. The 16-bit NEON lanes, where wrap-around is
  defined and does happen, are \<open>16 word\<close>.
\<close>

type_synonym byte = "8 word"
type_synonym plane = "int \<Rightarrow> byte"

record frame =
  yPlane :: plane
  uPlane :: plane
  vPlane :: plane
  width :: int
  height :: int
  yRowStride :: int
  uvRowStride :: int
  uvPixelStride :: int

text \<open>
  Every memory access of the kernel is recorded, in program order, next to the output
  buffer: a load names the plane and the index read, a store names the index written.
\<close>

datatype plane_id = PlaneY | PlaneU | PlaneV

datatype access = Load plane_id int | Store int

record conv_state =
  rgbOutput :: "int \<Rightarrow> byte"
  trace :: "access list"

definition load :: "plane_id \<Rightarrow> int \<Rightarrow> conv_state \<Rightarrow> conv_state" where
  "load p i st = st\<lparr>trace := trace st @ [Load p i]\<rparr>"

definition store :: "int \<Rightarrow> byte \<Rightarrow> conv_state \<Rightarrow> conv_state" where
  "store i b st = st\<lparr>rgbOutput := (rgbOutput st)(i := b), trace := trace st @ [Store i]\<rparr>"

definition stores :: "conv_state \<Rightarrow> int set" where
  "stores st = {i. Store i \<in> set (trace st)}"

definition loads :: "conv_state \<Rightarrow> (plane_id \<times> int) set" where
  "loads st = {(p, i). Load p i \<in> set (trace st)}"

section \<open>Arithmetic of the C++ source\<close>

text \<open>C++ integer division truncates toward zero (\<^verbatim>\<open>row / 2\<close>, \<^verbatim>\<open>col / 2\<close>).\<close>

definition c_div :: "int \<Rightarrow> int \<Rightarrow> int" where
  "c_div a b = sgn a * sgn b * (\<bar>a\<bar> div \<bar>b\<bar>)"

text \<open>\<^verbatim>\<open>clamp255\<close> of \<^verbatim>\<open>yuv_to_rgb.h\<close>; the cast to \<^verbatim>\<open>uint8_t\<close> is \<open>of_int\<close>.\<close>

definition clamp255 :: "int \<Rightarrow> byte" where
  "clamp255 val = of_int (if val < 0 then 0 else (if val > 255 then 255 else val))"

subsection \<open>Single-precision products\<close>

text \<open>
  The scalar path computes \<^verbatim>\<open>(int)(1.402f * (v - 128))\<close>: the \<^verbatim>\<open>int\<close> operand is
  converted to \<^verbatim>\<open>float\<close> (exactly, its magnitude is at most 128), the product is rounded
  to binary32 (round to nearest, ties to even) and the cast truncates toward zero.
  A binary32 constant is given by its 24-bit significand \<open>m\<close> and a scale \<open>s\<close>, its
  value being \<open>m / 2 ^ s\<close>. The magnitude of the exact product with the integer \<open>k\<close> is
  \<open>m * \<bar>k\<bar>\<close> in units of \<open>2 ^ - s\<close>; \<open>f32_round\<close> rounds such a magnitude to 24
  significant bits. All products here lie far inside the normal range of binary32, so
  neither overflow nor subnormals arise.
\<close>

function bit_length :: "int \<Rightarrow> nat" where
  "bit_length n = (if n \<le> 0 then 0 else Suc (bit_length (n div 2)))"
  by pat_completeness auto
termination
  by (relation "measure nat") auto

declare bit_length.simps [simp del]

definition f32_round :: "int \<Rightarrow> int" where
  "f32_round a =
     (let n = bit_length a in
      if n \<le> 24 then a
      else
        let s = n - 24;
            q = a div 2 ^ s;
            r = a mod 2 ^ s;
            q' = (if 2 * r > 2 ^ s \<or> (2 * r = 2 ^ s \<and> odd q) then q + 1 else q)
        in q' * 2 ^ s)"

definition f32_mul_to_int :: "int \<Rightarrow> nat \<Rightarrow> int \<Rightarrow> int" where
  "f32_mul_to_int m s k = sgn k * (f32_round (m * \<bar>k\<bar>) div 2 ^ s)"

text \<open>
  The four literals, as binary32 values:
  \<^verbatim>\<open>1.402f\<close> = 11760828 / 2^23, \<^verbatim>\<open>0.344136f\<close> = 11547288 / 2^25,
  \<^verbatim>\<open>0.714136f\<close> = 11981214 / 2^24, \<^verbatim>\<open>1.772f\<close> = 14864613 / 2^23.
\<close>

definition mul_1_402f :: "int \<Rightarrow> int" where
  "mul_1_402f k = f32_mul_to_int 11760828 23 k"

definition mul_0_344136f :: "int \<Rightarrow> int" where
  "mul_0_344136f k = f32_mul_to_int 11547288 25 k"

definition mul_0_714136f :: "int \<Rightarrow> int" where
  "mul_0_714136f k = f32_mul_to_int 11981214 24 k"

definition mul_1_772f :: "int \<Rightarrow> int" where
  "mul_1_772f k = f32_mul_to_int 14864613 23 k"

section \<open>Scalar conversion\<close>

text \<open>
  The three channel expressions of lines 68 to 70, which the cleanup loop of the NEON
  path repeats verbatim at lines 174 to 176:
  \<^verbatim>\<open>r = y + (int)(1.402f * (v - 128))\<close>,
  \<^verbatim>\<open>g = y - (int)(0.344136f * (u - 128)) - (int)(0.714136f * (v - 128))\<close>,
  \<^verbatim>\<open>b = y + (int)(1.772f * (u - 128))\<close>.
\<close>

definition scalar_r :: "int \<Rightarrow> int \<Rightarrow> int \<Rightarrow> int" where
  "scalar_r y u v = y + mul_1_402f (v - 128)"

definition scalar_g :: "int \<Rightarrow> int \<Rightarrow> int \<Rightarrow> int" where
  "scalar_g y u v = y - mul_0_344136f (u - 128) - mul_0_714136f (v - 128)"

definition scalar_b :: "int \<Rightarrow> int \<Rightarrow> int \<Rightarrow> int" where
  "scalar_b y u v = y + mul_1_772f (u - 128)"

text \<open>
  The body of the inner loop of \<^verbatim>\<open>convertYuv420ToRgbScalar\<close> (lines 51 to 75): index
  computation, three loads, the channel expressions and three stores at the running
  \<^verbatim>\<open>rgbIndex\<close>.
\<close>

definition scalar_body :: "frame \<Rightarrow> int \<Rightarrow> int \<Rightarrow> int \<Rightarrow> conv_state \<Rightarrow> int \<times> conv_state" where
  "scalar_body f row col rgbIndex st =
     (let yIndex = row * yRowStride f + col;
          uvRow = c_div row 2;
          uvCol = c_div col 2;
          uvIndex = uvRow * uvRowStride f + uvCol * uvPixelStride f;
          y = uint (yPlane f yIndex) AND 0xFF;
          u = uint (uPlane f uvIndex) AND 0xFF;
          v = uint (vPlane f uvIndex) AND 0xFF;
          st = load PlaneV uvIndex (load PlaneU uvIndex (load PlaneY yIndex st));
          r = scalar_r y u v;
          g = scalar_g y u v;
          b = scalar_b y u v;
          st = store rgbIndex (clamp255 r) st;
          st = store (rgbIndex + 1) (clamp255 g) st;
          st = store (rgbIndex + 2) (clamp255 b) st
      in (rgbIndex + 3, st))"

function scalar_cols :: "frame \<Rightarrow> int \<Rightarrow> int \<Rightarrow> int \<Rightarrow> conv_state \<Rightarrow> int \<times> conv_state" where
  "scalar_cols f row col rgbIndex st =
     (if col < width f then
        (case scalar_body f row col rgbIndex st of
           (rgbIndex', st') \<Rightarrow> scalar_cols f row (col + 1) rgbIndex' st')
      else (rgbIndex, st))"
  by pat_completeness auto
termination
  by (relation "measure (\<lambda>(f, row, col, rgbIndex, st). nat (width f - col))") auto

function scalar_rows :: "frame \<Rightarrow> int \<Rightarrow> int \<Rightarrow> conv_state \<Rightarrow> int \<times> conv_state" where
  "scalar_rows f row rgbIndex st =
     (if row < height f then
        (case scalar_cols f row 0 rgbIndex st of
           (rgbIndex', st') \<Rightarrow> scalar_rows f (row + 1) rgbIndex' st')
      else (rgbIndex, st))"
  by pat_completeness auto
termination
  by (relation "measure (\<lambda>(f, row, rgbIndex, st). nat (height f - row))") auto

definition convertYuv420ToRgbScalar :: "frame \<Rightarrow> conv_state \<Rightarrow> conv_state" where
  "convertYuv420ToRgbScalar f st = snd (scalar_rows f 0 0 st)"

declare scalar_cols.simps [simp del] scalar_rows.simps [simp del]

section \<open>NEON conversion\<close>

subsection \<open>The intrinsics used\<close>

text \<open>
  The intrinsics come from \<^verbatim>\<open>arm_neon.h\<close>; their meaning is the one of the Arm
  architecture reference. A vector is the list of its lanes, lane 0 first.
  \<^item> \<^verbatim>\<open>vdupq_n_s16\<close> fills eight 16-bit lanes with one value;
  \<^item> \<^verbatim>\<open>vld1_u8\<close> loads eight consecutive bytes;
  \<^item> \<^verbatim>\<open>vmovl_u8\<close> zero-extends each byte to 16 bits, and
    \<^verbatim>\<open>vreinterpretq_s16_u16\<close> keeps the bits;
  \<^item> \<^verbatim>\<open>vaddq_s16\<close>, \<^verbatim>\<open>vsubq_s16\<close> and \<^verbatim>\<open>vmulq_s16\<close> work lane by lane and keep
    the low 16 bits of the result (they wrap);
  \<^item> \<^verbatim>\<open>vshrq_n_s16\<close> is the arithmetic shift right of each lane;
  \<^item> \<^verbatim>\<open>vqmovun_s16\<close> narrows each signed lane to an unsigned byte with saturation;
  \<^item> \<^verbatim>\<open>vst3_u8\<close> stores three vectors interleaved: lane \<open>j\<close> of vector \<open>c\<close> goes
    to byte \<open>3 * j + c\<close>.
\<close>

type_synonym uint8x8 = "byte list"
type_synonym int16x8 = "16 word list"

definition vdupq_n_s16 :: "16 word \<Rightarrow> int16x8" where
  "vdupq_n_s16 c = replicate 8 c"

definition vld1_u8 :: "plane \<Rightarrow> int \<Rightarrow> uint8x8" where
  "vld1_u8 p i = map (\<lambda>j. p (i + int j)) [0..<8]"

definition vmovl_u8 :: "uint8x8 \<Rightarrow> int16x8" where
  "vmovl_u8 a = map ucast a"

definition vreinterpretq_s16_u16 :: "int16x8 \<Rightarrow> int16x8" where
  "vreinterpretq_s16_u16 a = a"

definition vaddq_s16 :: "int16x8 \<Rightarrow> int16x8 \<Rightarrow> int16x8" where
  "vaddq_s16 a b = map2 (+) a b"

definition vsubq_s16 :: "int16x8 \<Rightarrow> int16x8 \<Rightarrow> int16x8" where
  "vsubq_s16 a b = map2 (-) a b"

definition vmulq_s16 :: "int16x8 \<Rightarrow> int16x8 \<Rightarrow> int16x8" where
  "vmulq_s16 a b = map2 (*) a b"

definition vshrq_n_s16 :: "int16x8 \<Rightarrow> nat \<Rightarrow> int16x8" where
  "vshrq_n_s16 a n = map (signed_drop_bit n) a"

definition vqmovun_s16 :: "int16x8 \<Rightarrow> uint8x8" where
  "vqmovun_s16 a = map (\<lambda>w. if sint w < 0 then 0 else if sint w > 255 then 255 else ucast w) a"

definition vst3_lane :: "int \<Rightarrow> uint8x8 \<Rightarrow> uint8x8 \<Rightarrow> uint8x8 \<Rightarrow> nat \<Rightarrow> conv_state \<Rightarrow> conv_state" where
  "vst3_lane i val0 val1 val2 j st =
     store (i + 3 * int j + 2) (val2 ! j)
       (store (i + 3 * int j + 1) (val1 ! j)
          (store (i + 3 * int j) (val0 ! j) st))"

definition vst3_u8 :: "int \<Rightarrow> uint8x8 \<Rightarrow> uint8x8 \<Rightarrow> uint8x8 \<Rightarrow> conv_state \<Rightarrow> conv_state" where
  "vst3_u8 i val0 val1 val2 st = fold (vst3_lane i val0 val1 val2) [0..<8] st"

text \<open>A local array of bytes, seen through a pointer to its first element.\<close>

definition local_array :: "byte list \<Rightarrow> plane" where
  "local_array xs = (\<lambda>i. xs ! nat i)"

subsection \<open>The loops\<close>

text \<open>
  The body of the eight-pixel loop of \<^verbatim>\<open>convertYuv420ToRgbNeon\<close> (lines 113 to 162).
  The row offsets are the locals computed at the head of the row loop.
\<close>

definition neon_lane_body :: "frame \<Rightarrow> int \<Rightarrow> int \<Rightarrow> int \<Rightarrow> int \<Rightarrow> conv_state \<Rightarrow> conv_state" where
  "neon_lane_body f rgbRowOffset yRowOffset uvRowOffset col st =
     (let v_c1 = vdupq_n_s16 359;
          v_c2 = vdupq_n_s16 88;
          v_c3 = vdupq_n_s16 183;
          v_c4 = vdupq_n_s16 454;
          v_128 = vdupq_n_s16 128;
          y8 = vld1_u8 (yPlane f) (yRowOffset + col);
          st = fold (\<lambda>j. load PlaneY (yRowOffset + col + int j)) [0..<8] st;
          y = vreinterpretq_s16_u16 (vmovl_u8 y8);
          uvIndex = (\<lambda>i. uvRowOffset + (c_div col 2 + int i) * uvPixelStride f);
          u_vals = map (\<lambda>i. uPlane f (uvIndex i)) [0..<4];
          v_vals = map (\<lambda>i. vPlane f (uvIndex i)) [0..<4];
          st = fold (\<lambda>i st. load PlaneV (uvIndex i) (load PlaneU (uvIndex i) st)) [0..<4] st;
          u8 = [u_vals ! 0, u_vals ! 0, u_vals ! 1, u_vals ! 1,
                u_vals ! 2, u_vals ! 2, u_vals ! 3, u_vals ! 3];
          v8 = [v_vals ! 0, v_vals ! 0, v_vals ! 1, v_vals ! 1,
                v_vals ! 2, v_vals ! 2, v_vals ! 3, v_vals ! 3];
          u = vreinterpretq_s16_u16 (vmovl_u8 (vld1_u8 (local_array u8) 0));
          v = vreinterpretq_s16_u16 (vmovl_u8 (vld1_u8 (local_array v8) 0));
          u_shifted = vsubq_s16 u v_128;
          v_shifted = vsubq_s16 v v_128;
          r_contrib = vshrq_n_s16 (vmulq_s16 v_c1 v_shifted) 8;
          r = vaddq_s16 y r_contrib;
          g_contrib1 = vshrq_n_s16 (vmulq_s16 v_c2 u_shifted) 8;
          g_contrib2 = vshrq_n_s16 (vmulq_s16 v_c3 v_shifted) 8;
          g = vsubq_s16 (vsubq_s16 y g_contrib1) g_contrib2;
          b_contrib = vshrq_n_s16 (vmulq_s16 v_c4 u_shifted) 8;
          b = vaddq_s16 y b_contrib;
          r8 = vqmovun_s16 r;
          g8 = vqmovun_s16 g;
          b8 = vqmovun_s16 b
      in vst3_u8 (rgbRowOffset + col * 3) r8 g8 b8 st)"

function neon_lanes :: "frame \<Rightarrow> int \<Rightarrow> int \<Rightarrow> int \<Rightarrow> int \<Rightarrow> conv_state \<Rightarrow> int \<times> conv_state" where
  "neon_lanes f rgbRowOffset yRowOffset uvRowOffset col st =
     (if col + 8 \<le> width f then
        neon_lanes f rgbRowOffset yRowOffset uvRowOffset (col + 8)
          (neon_lane_body f rgbRowOffset yRowOffset uvRowOffset col st)
      else (col, st))"
  by pat_completeness auto
termination
  by (relation "measure (\<lambda>(f, ro, yo, uvo, col, st). nat (width f - col))") auto

text \<open>The body of the cleanup loop (lines 167 to 181).\<close>

definition neon_tail_body :: "frame \<Rightarrow> int \<Rightarrow> int \<Rightarrow> int \<Rightarrow> int \<Rightarrow> conv_state \<Rightarrow> conv_state" where
  "neon_tail_body f rgbRowOffset yRowOffset uvRowOffset col st =
     (let yIndex = yRowOffset + col;
          uvIndex = uvRowOffset + c_div col 2 * uvPixelStride f;
          y_val = uint (yPlane f yIndex);
          u_val = uint (uPlane f uvIndex);
          v_val = uint (vPlane f uvIndex);
          st = load PlaneV uvIndex (load PlaneU uvIndex (load PlaneY yIndex st));
          r = scalar_r y_val u_val v_val;
          g = scalar_g y_val u_val v_val;
          b_val = scalar_b y_val u_val v_val;
          rgbIdx = rgbRowOffset + col * 3;
          st = store rgbIdx (clamp255 r) st;
          st = store (rgbIdx + 1) (clamp255 g) st;
          st = store (rgbIdx + 2) (clamp255 b_val) st
      in st)"

function neon_tail :: "frame \<Rightarrow> int \<Rightarrow> int \<Rightarrow> int \<Rightarrow> int \<Rightarrow> conv_state \<Rightarrow> conv_state" where
  "neon_tail f rgbRowOffset yRowOffset uvRowOffset col st =
     (if col < width f then
        neon_tail f rgbRowOffset yRowOffset uvRowOffset (col + 1)
          (neon_tail_body f rgbRowOffset yRowOffset uvRowOffset col st)
      else st)"
  by pat_completeness auto
termination
  by (relation "measure (\<lambda>(f, ro, yo, uvo, col, st). nat (width f - col))") auto

definition neon_row_body :: "frame \<Rightarrow> int \<Rightarrow> conv_state \<Rightarrow> conv_state" where
  "neon_row_body f row st =
     (let uvRow = c_div row 2;
          rgbRowOffset = row * width f * 3;
          yRowOffset = row * yRowStride f;
          uvRowOffset = uvRow * uvRowStride f
      in case neon_lanes f rgbRowOffset yRowOffset uvRowOffset 0 st of
           (col, st') \<Rightarrow> neon_tail f rgbRowOffset yRowOffset uvRowOffset col st')"

function neon_rows :: "frame \<Rightarrow> int \<Rightarrow> conv_state \<Rightarrow> conv_state" where
  "neon_rows f row st =
     (if row < height f then neon_rows f (row + 1) (neon_row_body f row st) else st)"
  by pat_completeness auto
termination
  by (relation "measure (\<lambda>(f, row, st). nat (height f - row))") auto

definition convertYuv420ToRgbNeon :: "frame \<Rightarrow> conv_state \<Rightarrow> conv_state" where
  "convertYuv420ToRgbNeon f st = neon_rows f 0 st"

declare neon_lanes.simps [simp del] neon_tail.simps [simp del] neon_rows.simps [simp del]

section \<open>Dispatch and entry point\<close>

text \<open>
  \<^verbatim>\<open>convertYuv420ToRgb\<close> picks the path at compile time through \<^verbatim>\<open>USE_NEON\<close>, which
  is a parameter here.
\<close>

definition convertYuv420ToRgb :: "bool \<Rightarrow> frame \<Rightarrow> conv_state \<Rightarrow> conv_state" where
  "convertYuv420ToRgb use_neon f st =
     (if use_neon then convertYuv420ToRgbNeon f st else convertYuv420ToRgbScalar f st)"

text \<open>
  The JNI entry point \<^verbatim>\<open>convertYuvToRgb\<close> (lines 230 to 269). What
  \<^verbatim>\<open>GetDirectBufferAddress\<close> returns for a buffer is \<open>None\<close> for a null pointer and
  the plane otherwise. The events of a call are recorded in program order. The array
  allocated by \<^verbatim>\<open>new uint8_t[rgbSize]\<close> starts with indeterminate contents, the
  parameter \<open>heap\<close>; a negative size makes \<^verbatim>\<open>new\<close> throw. Exhausted memory is outside
  the model.
\<close>

datatype jni_event =
    LogE
  | NewOutput int
  | Kernel access
  | NewByteArray int
  | SetByteArrayRegion int
  | DeleteOutput

datatype jni_error = BadArrayNewLength

definition convertYuvToRgb ::
  "bool \<Rightarrow> (int \<Rightarrow> byte) \<Rightarrow> plane option \<Rightarrow> plane option \<Rightarrow> plane option \<Rightarrow>
     int \<Rightarrow> int \<Rightarrow> int \<Rightarrow> int \<Rightarrow> int \<Rightarrow> (jni_error + byte list option) \<times> jni_event list" where
  "convertYuvToRgb use_neon heap yBuffer uBuffer vBuffer w h yRowStride' uvRowStride' uvPixelStride' =
     (case (yBuffer, uBuffer, vBuffer) of
        (Some yPlane', Some uPlane', Some vPlane') \<Rightarrow>
          (let rgbSize = w * h * 3 in
           if rgbSize < 0 then (Inl BadArrayNewLength, [])
           else
             let st = convertYuv420ToRgb use_neon
                        \<lparr>yPlane = yPlane', uPlane = uPlane', vPlane = vPlane',
                         width = w, height = h, yRowStride = yRowStride',
                         uvRowStride = uvRowStride', uvPixelStride = uvPixelStride'\<rparr>
                        \<lparr>rgbOutput = heap, trace = []\<rparr>;
                 result = map (\<lambda>i. rgbOutput st (int i)) [0..<nat rgbSize]
             in (Inr (Some result),
                 [NewOutput rgbSize] @ map Kernel (trace st) @
                 [NewByteArray rgbSize, SetByteArrayRegion rgbSize, DeleteOutput]))
      | _ \<Rightarrow> (Inr None, [LogE]))"

section \<open>Samples and pixel values\<close>

text \<open>
  The sample of each plane that belongs to the pixel \<open>(row, col)\<close>: the luma byte at
  \<open>row * yRowStride + col\<close> and the chroma bytes at
  \<open>(row div 2) * uvRowStride + (col div 2) * uvPixelStride\<close>.
\<close>

definition y_index :: "frame \<Rightarrow> int \<Rightarrow> int \<Rightarrow> int" where
  "y_index f row col = row * yRowStride f + col"

definition uv_index :: "frame \<Rightarrow> int \<Rightarrow> int \<Rightarrow> int" where
  "uv_index f row col = (row div 2) * uvRowStride f + (col div 2) * uvPixelStride f"

definition y_at :: "frame \<Rightarrow> int \<Rightarrow> int \<Rightarrow> byte" where
  "y_at f row col = yPlane f (y_index f row col)"

definition u_at :: "frame \<Rightarrow> int \<Rightarrow> int \<Rightarrow> byte" where
  "u_at f row col = uPlane f (uv_index f row col)"

definition v_at :: "frame \<Rightarrow> int \<Rightarrow> int \<Rightarrow> byte" where
  "v_at f row col = vPlane f (uv_index f row col)"

text \<open>Channel \<open>0\<close> is red, \<open>1\<close> is green, \<open>2\<close> is blue.\<close>

definition pick3 :: "nat \<Rightarrow> 'a \<Rightarrow> 'a \<Rightarrow> 'a \<Rightarrow> 'a" where
  "pick3 ch r g b = (if ch = 0 then r else if ch = 1 then g else b)"

text \<open>The \<^verbatim>\<open>int\<close> that the scalar code hands to \<^verbatim>\<open>clamp255\<close> for a channel.\<close>

definition scalar_channel :: "byte \<Rightarrow> byte \<Rightarrow> byte \<Rightarrow> nat \<Rightarrow> int" where
  "scalar_channel y u v ch =
     pick3 ch (scalar_r (uint y) (uint u) (uint v))
              (scalar_g (uint y) (uint u) (uint v))
              (scalar_b (uint y) (uint u) (uint v))"

definition scalar_pixel :: "byte \<Rightarrow> byte \<Rightarrow> byte \<Rightarrow> nat \<Rightarrow> byte" where
  "scalar_pixel y u v ch = clamp255 (scalar_channel y u v ch)"

definition scalar_at :: "frame \<Rightarrow> int \<Rightarrow> int \<Rightarrow> nat \<Rightarrow> byte" where
  "scalar_at f row col ch = scalar_pixel (y_at f row col) (u_at f row col) (v_at f row col) ch"

text \<open>
  One lane of the vector computation of lines 131 to 155: the 16-bit lane that
  \<^verbatim>\<open>vqmovun_s16\<close> receives for a channel, and the byte it yields.
\<close>

definition lane_r :: "byte \<Rightarrow> byte \<Rightarrow> byte \<Rightarrow> 16 word" where
  "lane_r y u v = ucast y + signed_drop_bit 8 (359 * (ucast v - 128))"

definition lane_g :: "byte \<Rightarrow> byte \<Rightarrow> byte \<Rightarrow> 16 word" where
  "lane_g y u v =
     ucast y - signed_drop_bit 8 (88 * (ucast u - 128)) - signed_drop_bit 8 (183 * (ucast v - 128))"

definition lane_b :: "byte \<Rightarrow> byte \<Rightarrow> byte \<Rightarrow> 16 word" where
  "lane_b y u v = ucast y + signed_drop_bit 8 (454 * (ucast u - 128))"

definition lane_channel :: "byte \<Rightarrow> byte \<Rightarrow> byte \<Rightarrow> nat \<Rightarrow> 16 word" where
  "lane_channel y u v ch = pick3 ch (lane_r y u v) (lane_g y u v) (lane_b y u v)"

definition vqmovun_lane :: "16 word \<Rightarrow> byte" where
  "vqmovun_lane w = (if sint w < 0 then 0 else if sint w > 255 then 255 else ucast w)"

definition neon_pixel :: "byte \<Rightarrow> byte \<Rightarrow> byte \<Rightarrow> nat \<Rightarrow> byte" where
  "neon_pixel y u v ch = vqmovun_lane (lane_channel y u v ch)"

text \<open>
  The byte of pixel \<open>(row, col)\<close> in the NEON path: columns below \<open>8 * (width div 8)\<close>
  belong to the eight-pixel loop, the others to the cleanup loop.
\<close>

definition neon_at :: "frame \<Rightarrow> int \<Rightarrow> int \<Rightarrow> nat \<Rightarrow> byte" where
  "neon_at f row col ch =
     (if col < 8 * (width f div 8)
      then neon_pixel (y_at f row col) (u_at f row col) (v_at f row col) ch
      else scalar_pixel (y_at f row col) (u_at f row col) (v_at f row col) ch)"

text \<open>The offset of channel \<open>ch\<close> of pixel \<open>(row, col)\<close> in the output buffer.\<close>

definition rgb_offset :: "frame \<Rightarrow> int \<Rightarrow> int \<Rightarrow> nat \<Rightarrow> int" where
  "rgb_offset f row col ch = (row * width f + col) * 3 + int ch"

section \<open>Auxiliary notions for the loop invariants\<close>

definition lane_loads :: "frame \<Rightarrow> int \<Rightarrow> int \<Rightarrow> int \<Rightarrow> conv_state \<Rightarrow> conv_state" where
  "lane_loads f yo uvo col st =
     fold (\<lambda>i st. load PlaneV (uvo + (c_div col 2 + int i) * uvPixelStride f)
                    (load PlaneU (uvo + (c_div col 2 + int i) * uvPixelStride f) st)) [0..<4]
       (fold (\<lambda>j. load PlaneY (yo + col + int j)) [0..<8] st)"

definition lane_px :: "frame \<Rightarrow> int \<Rightarrow> int \<Rightarrow> int \<Rightarrow> nat \<Rightarrow> byte" where
  "lane_px f yo uvo c ch =
     neon_pixel (yPlane f (yo + c)) (uPlane f (uvo + (c div 2) * uvPixelStride f))
                (vPlane f (uvo + (c div 2) * uvPixelStride f)) ch"

definition tail_px :: "frame \<Rightarrow> int \<Rightarrow> int \<Rightarrow> int \<Rightarrow> nat \<Rightarrow> byte" where
  "tail_px f yo uvo c ch =
     scalar_pixel (yPlane f (yo + c)) (uPlane f (uvo + (c div 2) * uvPixelStride f))
                  (vPlane f (uvo + (c div 2) * uvPixelStride f)) ch"

definition lanes_end :: "int \<Rightarrow> int \<Rightarrow> int" where
  "lanes_end w col = col + 8 * max 0 ((w - col) div 8)"

definition wrap16 :: "int \<Rightarrow> int" where
  "wrap16 x = (x + 32768) mod 65536 - 32768"

definition tab_r :: "int \<Rightarrow> bool" where
  "tab_r k \<longleftrightarrow> (let m = mul_1_402f k in m = c_div (1402 * k) 1000 \<and>
     (- 91 \<le> k \<and> k \<le> 91 \<longrightarrow>
        - 2 \<le> (359 * k) div 256 - m \<and> (359 * k) div 256 - m \<le> 1))"

definition tab_b :: "int \<Rightarrow> bool" where
  "tab_b k \<longleftrightarrow> (let m = mul_1_772f k in m = c_div (1772 * k) 1000 \<and>
     (- 72 \<le> k \<and> k \<le> 72 \<longrightarrow>
        - 2 \<le> (454 * k) div 256 - m \<and> (454 * k) div 256 - m \<le> 1))"

definition tab_g1 :: "int \<Rightarrow> bool" where
  "tab_g1 k \<longleftrightarrow> (let m = mul_0_344136f k in m = c_div (344136 * k) 1000000 \<and>
        - 1 \<le> (88 * k) div 256 - m \<and> (88 * k) div 256 - m \<le> 0)"

definition tab_g2 :: "int \<Rightarrow> bool" where
  "tab_g2 k \<longleftrightarrow> (let m = mul_0_714136f k in m = c_div (714136 * k) 1000000 \<and>
        - 2 \<le> (183 * k) div 256 - m \<and> (183 * k) div 256 - m \<le> 1)"

definition saturate :: "int \<Rightarrow> int" where
  "saturate x = (if x < 0 then 0 else if x > 255 then 255 else x)"

definition spec_r :: "int \<Rightarrow> int \<Rightarrow> int \<Rightarrow> int" where
  "spec_r y u v = y + c_div (1402 * (v - 128)) 1000"

definition spec_g :: "int \<Rightarrow> int \<Rightarrow> int \<Rightarrow> int" where
  "spec_g y u v = y - c_div (344136 * (u - 128)) 1000000 - c_div (714136 * (v - 128)) 1000000"

definition spec_b :: "int \<Rightarrow> int \<Rightarrow> int \<Rightarrow> int" where
  "spec_b y u v = y + c_div (1772 * (u - 128)) 1000"

definition const_frame :: "int \<Rightarrow> int \<Rightarrow> int \<Rightarrow> int \<Rightarrow> byte \<Rightarrow> byte \<Rightarrow> byte \<Rightarrow> frame" where
  "const_frame w h ys uvs y u v =
     \<lparr>yPlane = (\<lambda>_. y), uPlane = (\<lambda>_. u), vPlane = (\<lambda>_. v), width = w, height = h,
      yRowStride = ys, uvRowStride = uvs, uvPixelStride = 1\<rparr>"

definition init_state :: conv_state where
  "init_state = \<lparr>rgbOutput = (\<lambda>_. 0), trace = []\<rparr>"

section \<open>Basic facts\<close>

lemma uint_byte_mask: "uint (w::byte) AND 0xFF = uint w"
proof -
  have "uint w AND mask 8 = uint w"
    by (simp only: flip: take_bit_eq_mask) (simp add: take_bit_int_eq_self_iff uint_bounded[where 'a=8, simplified])
  then show ?thesis by (simp add: mask_numeral)
qed

lemma c_div_2_nonneg: "0 \<le> a \<Longrightarrow> c_div a 2 = a div 2"
  by (simp add: c_div_def sgn_if)

lemma rgbOutput_load [simp]: "rgbOutput (load p i st) = rgbOutput st"
  by (simp add: load_def)

lemma rgbOutput_store [simp]: "rgbOutput (store i b st) = (rgbOutput st)(i := b)"
  by (simp add: store_def)

lemma stores_load [simp]: "stores (load p i st) = stores st"
  by (auto simp: load_def stores_def)

lemma stores_store [simp]: "stores (store i b st) = insert i (stores st)"
  by (auto simp: store_def stores_def)

lemma scalar_body_fst: "fst (scalar_body f row col idx st) = idx + 3"
  by (simp add: scalar_body_def Let_def)

lemma scalar_body_out:
  assumes "0 \<le> row" "0 \<le> col"
  shows "rgbOutput (snd (scalar_body f row col idx st)) =
           (rgbOutput st)(idx := scalar_at f row col 0, idx + 1 := scalar_at f row col 1,
                          idx + 2 := scalar_at f row col 2)"
  using assms
  by (simp add: scalar_body_def Let_def scalar_at_def scalar_pixel_def scalar_channel_def
      pick3_def uint_byte_mask c_div_2_nonneg y_at_def u_at_def v_at_def y_index_def uv_index_def)

lemma scalar_cols_spec:
  assumes "0 \<le> row" "0 \<le> col"
  shows "fst (scalar_cols f row col idx st) = idx + 3 * max 0 (width f - col) \<and>
         (\<forall>k. rgbOutput (snd (scalar_cols f row col idx st)) k =
           (if idx \<le> k \<and> k < idx + 3 * (width f - col)
            then scalar_at f row (col + (k - idx) div 3) (nat ((k - idx) mod 3))
            else rgbOutput st k))"
  using assms
proof (induction f row col idx st rule: scalar_cols.induct)
  case (1 f row col idx st)
  show ?case
  proof (cases "col < width f")
    case False
    then have e: "scalar_cols f row col idx st = (idx, st)" by (simp add: scalar_cols.simps)
    show ?thesis unfolding e using False by auto
  next
    case True
    obtain idx' st' where b: "scalar_body f row col idx st = (idx', st')"
      by (cases "scalar_body f row col idx st")
    have idx': "idx' = idx + 3" using scalar_body_fst[of f row col idx st] b by simp
    have out': "rgbOutput st' = (rgbOutput st)(idx := scalar_at f row col 0,
        idx + 1 := scalar_at f row col 1, idx + 2 := scalar_at f row col 2)"
      using scalar_body_out[OF "1.prems", of f idx st] b by simp
    have unf: "scalar_cols f row col idx st = scalar_cols f row (col + 1) idx' st'"
      using True b by (simp add: scalar_cols.simps[of f row col])
    have IH: "fst (scalar_cols f row (col + 1) idx' st') = idx' + 3 * max 0 (width f - (col + 1)) \<and>
         (\<forall>k. rgbOutput (snd (scalar_cols f row (col + 1) idx' st')) k =
           (if idx' \<le> k \<and> k < idx' + 3 * (width f - (col + 1))
            then scalar_at f row (col + 1 + (k - idx') div 3) (nat ((k - idx') mod 3))
            else rgbOutput st' k))"
      using "1.IH"[OF True b[symmetric]] "1.prems" by simp
    have fst_ok: "fst (scalar_cols f row col idx st) = idx + 3 * max 0 (width f - col)"
      using IH True unfolding unf idx' by simp
    have out_ok: "rgbOutput (snd (scalar_cols f row col idx st)) k =
           (if idx \<le> k \<and> k < idx + 3 * (width f - col)
            then scalar_at f row (col + (k - idx) div 3) (nat ((k - idx) mod 3))
            else rgbOutput st k)" for k
    proof -
      consider "k < idx" | "k = idx" | "k = idx + 1" | "k = idx + 2" | "idx + 3 \<le> k" by linarith
      then show ?thesis
      proof cases
        case 1
        then show ?thesis using IH unfolding unf idx' out' by simp
      next
        case 2
        then show ?thesis using IH True unfolding unf idx' out' by simp
      next
        case 3
        then show ?thesis using IH True unfolding unf idx' out' by simp
      next
        case 4
        then show ?thesis using IH True unfolding unf idx' out' by simp
      next
        case 5
        have d: "(k - idx) div 3 = (k - (idx + 3)) div 3 + 1" by presburger
        have m: "(k - idx) mod 3 = (k - (idx + 3)) mod 3" by presburger
        show ?thesis
        proof (cases "k < idx + 3 * (width f - col)")
          case True
          then show ?thesis using 5 IH unfolding unf idx' out' d m
            by (simp add: algebra_simps)
        next
          case False
          then show ?thesis using 5 IH unfolding unf idx' out' by (simp add: algebra_simps)
        qed
      qed
    qed
    show ?thesis using fst_ok out_ok by blast
  qed
qed

lemma div3_offset: "ch < 3 \<Longrightarrow> (c * 3 + int ch) div 3 = c"
  by simp

lemma mod3_offset: "ch < 3 \<Longrightarrow> nat ((c * 3 + int ch) mod 3) = ch"
  by simp

lemma scalar_rows_spec:
  assumes "0 \<le> row" "0 \<le> width f"
  shows "(\<forall>r c ch. row \<le> r \<and> r < height f \<and> 0 \<le> c \<and> c < width f \<and> ch < 3 \<longrightarrow>
            rgbOutput (snd (scalar_rows f row idx st)) (idx + ((r - row) * width f + c) * 3 + int ch)
              = scalar_at f r c ch) \<and>
         (\<forall>k. k < idx \<or> idx + 3 * width f * max 0 (height f - row) \<le> k \<longrightarrow>
            rgbOutput (snd (scalar_rows f row idx st)) k = rgbOutput st k)"
  using assms
proof (induction f row idx st rule: scalar_rows.induct)
  case (1 f row idx st)
  show ?case
  proof (cases "row < height f")
    case False
    then have e: "scalar_rows f row idx st = (idx, st)" by (simp add: scalar_rows.simps)
    show ?thesis unfolding e using False by auto
  next
    case True
    obtain idx' st' where b: "scalar_cols f row 0 idx st = (idx', st')"
      by (cases "scalar_cols f row 0 idx st")
    have cs: "fst (scalar_cols f row 0 idx st) = idx + 3 * max 0 (width f - 0) \<and>
         (\<forall>k. rgbOutput (snd (scalar_cols f row 0 idx st)) k =
           (if idx \<le> k \<and> k < idx + 3 * (width f - 0)
            then scalar_at f row (0 + (k - idx) div 3) (nat ((k - idx) mod 3))
            else rgbOutput st k))"
      using scalar_cols_spec[of row 0 f idx st] "1.prems" by simp
    have idx': "idx' = idx + 3 * width f" using cs b "1.prems" by simp
    have out': "rgbOutput st' k =
           (if idx \<le> k \<and> k < idx + 3 * width f
            then scalar_at f row ((k - idx) div 3) (nat ((k - idx) mod 3))
            else rgbOutput st k)" for k
      using cs b by simp
    have unf: "scalar_rows f row idx st = scalar_rows f (row + 1) idx' st'"
      using True b by (simp add: scalar_rows.simps[of f row])
    have r1: "0 \<le> row + 1" using "1.prems" by simp
    note IH = "1.IH"[OF True b[symmetric] r1 "1.prems"(2)]
    have IH1: "row + 1 \<le> r \<Longrightarrow> r < height f \<Longrightarrow> 0 \<le> c \<Longrightarrow> c < width f \<Longrightarrow> ch < 3 \<Longrightarrow>
            rgbOutput (snd (scalar_rows f (row + 1) idx' st')) (idx' + ((r - (row + 1)) * width f + c) * 3 + int ch)
              = scalar_at f r c ch" for r c ch
      using IH by blast
    have IH2: "k < idx' \<or> idx' + 3 * width f * max 0 (height f - (row + 1)) \<le> k \<Longrightarrow>
            rgbOutput (snd (scalar_rows f (row + 1) idx' st')) k = rgbOutput st' k" for k
      using IH by blast
    have total: "idx' + 3 * width f * max 0 (height f - (row + 1)) = idx + 3 * width f * max 0 (height f - row)"
      using True unfolding idx' by (simp add: algebra_simps max_def)
    have part1: "rgbOutput (snd (scalar_rows f row idx st)) (idx + ((r - row) * width f + c) * 3 + int ch)
              = scalar_at f r c ch"
      if r: "row \<le> r" "r < height f" and c: "0 \<le> c" "c < width f" and ch: "ch < 3" for r c ch
    proof (cases "r = row")
      case True
      let ?k = "idx + (c * 3 + int ch)"
      have lt: "?k < idx'" using c ch unfolding idx' by simp
      have "rgbOutput (snd (scalar_rows f row idx st)) ?k = rgbOutput st' ?k"
        unfolding unf using IH2[of ?k] lt by simp
      also have "\<dots> = scalar_at f row c ch"
        using c ch lt unfolding idx' by (simp add: out' div3_offset mod3_offset)
      finally show ?thesis using True by (simp add: add.assoc)
    next
      case False
      then have r1: "row + 1 \<le> r" using r by simp
      have e: "idx' + ((r - (row + 1)) * width f + c) * 3 + int ch = idx + ((r - row) * width f + c) * 3 + int ch"
        unfolding idx' by (simp add: algebra_simps)
      show ?thesis using IH1[OF r1 r(2) c ch] unfolding unf e .
    qed
    have part2: "rgbOutput (snd (scalar_rows f row idx st)) k = rgbOutput st k"
      if k: "k < idx \<or> idx + 3 * width f * max 0 (height f - row) \<le> k" for k
    proof -
      define T where "T = 3 * width f * (height f - row - 1)"
      have T0: "0 \<le> T" using True "1.prems" by (simp add: T_def)
      have S: "3 * width f * max 0 (height f - row) = 3 * width f + T"
        using True by (simp add: T_def max_def algebra_simps)
      have S': "idx' + 3 * width f * max 0 (height f - (row + 1)) = idx + (3 * width f + T)"
        using total S by simp
      have k': "k < idx \<or> idx + (3 * width f + T) \<le> k" using k unfolding S .
      have "k < idx' \<or> idx' + 3 * width f * max 0 (height f - (row + 1)) \<le> k"
        unfolding S' using k' T0 "1.prems" unfolding idx' by linarith
      then have "rgbOutput (snd (scalar_rows f row idx st)) k = rgbOutput st' k"
        unfolding unf using IH2 by simp
      moreover have "\<not> (idx \<le> k \<and> k < idx + 3 * width f)"
        using k' T0 by linarith
      ultimately show ?thesis using out'[of k] by simp
    qed
    show ?thesis using part1 part2 by blast
  qed
qed

lemma scalar_out:
  assumes "0 \<le> row" "row < height f" "0 \<le> col" "col < width f" "ch < 3"
  shows "rgbOutput (convertYuv420ToRgbScalar f st) (rgb_offset f row col ch) = scalar_at f row col ch"
proof -
  have w: "0 \<le> width f" using assms by simp
  have "rgbOutput (snd (scalar_rows f 0 0 st)) (0 + ((row - 0) * width f + col) * 3 + int ch)
              = scalar_at f row col ch"
    using scalar_rows_spec[of 0 f 0 st] w assms by blast
  then show ?thesis by (simp add: convertYuv420ToRgbScalar_def rgb_offset_def)
qed

lemma scalar_frame:
  assumes "0 \<le> width f" "k < 0 \<or> 3 * width f * max 0 (height f) \<le> k"
  shows "rgbOutput (convertYuv420ToRgbScalar f st) k = rgbOutput st k"
proof -
  have "k < 0 \<or> 0 + 3 * width f * max 0 (height f - 0) \<le> k" using assms(2) by simp
  then have "rgbOutput (snd (scalar_rows f 0 0 st)) k = rgbOutput st k"
    using scalar_rows_spec[of 0 f 0 st] assms(1) by blast
  then show ?thesis by (simp add: convertYuv420ToRgbScalar_def)
qed

lemma upt_8: "[0..<8] = [0, 1, 2, 3, 4, 5, 6, 7]"
  by (simp add: upt_rec)

lemma upt_4: "[0..<4] = [0, 1, 2, 3]"
  by (simp add: upt_rec)

lemma replicate_8: "replicate 8 c = [c, c, c, c, c, c, c, c]"
  by (simp add: numeral_eq_Suc)

lemma rgbOutput_fold_load [simp]:
  "rgbOutput (fold (\<lambda>j. load (p j) (ix j)) js st) = rgbOutput st"
  by (induction js arbitrary: st) simp_all

lemma stores_fold_load [simp]:
  "stores (fold (\<lambda>j. load (p j) (ix j)) js st) = stores st"
  by (induction js arbitrary: st) simp_all

lemma rgbOutput_fold_load2 [simp]:
  "rgbOutput (fold (\<lambda>j st. load p (ix j) (load q (ix j) st)) js st) = rgbOutput st"
  by (induction js arbitrary: st) simp_all

lemma stores_fold_load2 [simp]:
  "stores (fold (\<lambda>j st. load p (ix j) (load q (ix j) st)) js st) = stores st"
  by (induction js arbitrary: st) simp_all

lemma vst3_fold_out:
  "rgbOutput (fold (vst3_lane i r g b) [0..<n] st) k =
     (if i \<le> k \<and> k < i + 3 * int n
      then pick3 (nat ((k - i) mod 3)) r g b ! nat ((k - i) div 3)
      else rgbOutput st k)"
proof (induction n)
  case 0
  then show ?case by auto
next
  case (Suc n)
  consider "k < i + 3 * int n" | "k = i + 3 * int n" | "k = i + 3 * int n + 1"
    | "k = i + 3 * int n + 2" | "i + 3 * int n + 3 \<le> k" by linarith
  then show ?case
  proof cases
    case 1
    then show ?thesis using Suc by (simp add: vst3_lane_def)
  next
    case 2
    then show ?thesis by (simp add: vst3_lane_def pick3_def)
  next
    case 3
    have "(3 * int n + 1) mod 3 = 1" "(3 * int n + 1) div 3 = int n" by presburger+
    with 3 show ?thesis by (simp add: vst3_lane_def pick3_def)
  next
    case 4
    have "(3 * int n + 2) mod 3 = 2" "(3 * int n + 2) div 3 = int n" by presburger+
    with 4 show ?thesis by (simp add: vst3_lane_def pick3_def)
  next
    case 5
    then show ?thesis using Suc by (simp add: vst3_lane_def)
  qed
qed

lemma vst3_u8_out:
  "rgbOutput (vst3_u8 i r g b st) k =
     (if i \<le> k \<and> k < i + 24
      then pick3 (nat ((k - i) mod 3)) r g b ! nat ((k - i) div 3)
      else rgbOutput st k)"
  using vst3_fold_out[of i r g b 8 st k] by (simp add: vst3_u8_def)

lemma vst3_fold_stores:
  "stores (fold (vst3_lane i r g b) [0..<n] st) = stores st \<union> {i ..< i + 3 * int n}"
proof (induction n)
  case 0
  then show ?case by simp
next
  case (Suc n)
  have "{i ..< i + 3 * int (Suc n)} =
        {i ..< i + 3 * int n} \<union> {i + 3 * int n, i + 3 * int n + 1, i + 3 * int n + 2}"
    by auto
  then show ?case using Suc by (simp add: vst3_lane_def) blast
qed

lemma vst3_u8_stores: "stores (vst3_u8 i r g b st) = stores st \<union> {i ..< i + 24}"
  using vst3_fold_stores[of i r g b 8 st] by (simp add: vst3_u8_def)

lemma vqmovun_s16_map: "vqmovun_s16 a = map vqmovun_lane a"
  by (simp add: vqmovun_s16_def vqmovun_lane_def)

lemma pick3_simps [simp]:
  "pick3 0 r g b = r" "pick3 (Suc 0) r g b = g" "pick3 1 r g b = g" "pick3 2 r g b = b"
  by (simp_all add: pick3_def)

lemma neon_lane_body_eq:
  "neon_lane_body f ro yo uvo col st =
     vst3_u8 (ro + col * 3)
       (map (\<lambda>j. neon_pixel (yPlane f (yo + col + int j))
                    (uPlane f (uvo + (c_div col 2 + int (j div 2)) * uvPixelStride f))
                    (vPlane f (uvo + (c_div col 2 + int (j div 2)) * uvPixelStride f)) 0) [0..<8])
       (map (\<lambda>j. neon_pixel (yPlane f (yo + col + int j))
                    (uPlane f (uvo + (c_div col 2 + int (j div 2)) * uvPixelStride f))
                    (vPlane f (uvo + (c_div col 2 + int (j div 2)) * uvPixelStride f)) 1) [0..<8])
       (map (\<lambda>j. neon_pixel (yPlane f (yo + col + int j))
                    (uPlane f (uvo + (c_div col 2 + int (j div 2)) * uvPixelStride f))
                    (vPlane f (uvo + (c_div col 2 + int (j div 2)) * uvPixelStride f)) 2) [0..<8])
       (lane_loads f yo uvo col st)"
  unfolding neon_lane_body_def lane_loads_def Let_def
  by (simp add: upt_8 upt_4 replicate_8 vdupq_n_s16_def vld1_u8_def vmovl_u8_def
      vreinterpretq_s16_u16_def vaddq_s16_def vsubq_s16_def vmulq_s16_def vshrq_n_s16_def
      vqmovun_s16_map local_array_def neon_pixel_def lane_channel_def
      lane_r_def lane_g_def lane_b_def)

lemma pick3_map:
  assumes "ch < 3" "j < length js"
  shows "pick3 ch (map (\<lambda>j. P j 0) js) (map (\<lambda>j. P j 1) js) (map (\<lambda>j. P j 2) js) ! j = P (js ! j) ch"
proof -
  consider "ch = 0" | "ch = 1" | "ch = 2" using assms(1) by linarith
  then show ?thesis using assms(2) by cases simp_all
qed

lemma even_half_add:
  assumes "even (col::int)" "0 \<le> col"
  shows "c_div col 2 + int (j div 2) = (col + int j) div 2"
proof -
  obtain m where m: "col = 2 * m" using assms(1) by (elim evenE)
  have "c_div col 2 = m" using assms(2) m by (simp add: c_div_2_nonneg)
  moreover have "(col + int j) div 2 = m + int j div 2" unfolding m by simp
  ultimately show ?thesis by (simp add: zdiv_int)
qed

lemma vst3_u8_map_out:
  "rgbOutput (vst3_u8 i (map (\<lambda>j. P j 0) [0..<8]) (map (\<lambda>j. P j 1) [0..<8])
                (map (\<lambda>j. P j 2) [0..<8]) st) k =
     (if i \<le> k \<and> k < i + 24 then P (nat ((k - i) div 3)) (nat ((k - i) mod 3))
      else rgbOutput st k)"
proof (cases "i \<le> k \<and> k < i + 24")
  case False
  then show ?thesis by (simp only: vst3_u8_out if_False)
next
  case True
  then have "0 \<le> k - i" "k - i < 24" by simp_all
  then have j: "nat ((k - i) div 3) < length [0..<8]" by simp
  have ch: "nat ((k - i) mod 3) < 3" by simp
  have "[0..<8] ! nat ((k - i) div 3) = nat ((k - i) div 3)" using j by simp
  then show ?thesis using True pick3_map[OF ch j, of P] by (simp only: vst3_u8_out if_True)
qed

lemma neon_lane_body_out:
  assumes "0 \<le> col" "even col"
  shows "rgbOutput (neon_lane_body f ro yo uvo col st) k =
           (if ro + 3 * col \<le> k \<and> k < ro + 3 * col + 24
            then lane_px f yo uvo ((k - ro) div 3) (nat ((k - ro) mod 3))
            else rgbOutput st k)"
proof -
  define P where "P j ch = neon_pixel (yPlane f (yo + col + int j))
              (uPlane f (uvo + (c_div col 2 + int (j div 2)) * uvPixelStride f))
              (vPlane f (uvo + (c_div col 2 + int (j div 2)) * uvPixelStride f)) ch" for j ch
  have base: "ro + col * 3 = ro + 3 * col" by simp
  have eq: "rgbOutput (neon_lane_body f ro yo uvo col st) k =
     (if ro + 3 * col \<le> k \<and> k < ro + 3 * col + 24
      then P (nat ((k - (ro + 3 * col)) div 3)) (nat ((k - (ro + 3 * col)) mod 3))
      else rgbOutput (lane_loads f yo uvo col st) k)"
    unfolding neon_lane_body_eq P_def[symmetric] base by (rule vst3_u8_map_out)
  show ?thesis
  proof (cases "ro + 3 * col \<le> k \<and> k < ro + 3 * col + 24")
    case False
    show ?thesis unfolding eq if_not_P[OF False] by (simp add: lane_loads_def)
  next
    case True
    define d where "d = k - (ro + 3 * col)"
    have d: "0 \<le> d" "d < 24" using True by (simp_all add: d_def)
    have kd: "k - ro = 3 * col + d" by (simp add: d_def)
    have c: "(k - ro) div 3 = col + d div 3" unfolding kd by simp
    have m: "(k - ro) mod 3 = d mod 3" unfolding kd by simp
    have j: "int (nat (d div 3)) = d div 3" using d by simp
    have h: "c_div col 2 + int (nat (d div 3) div 2) = (col + d div 3) div 2"
      using even_half_add[OF assms(2,1), of "nat (d div 3)"] j by simp
    have "P (nat (d div 3)) (nat (d mod 3)) = lane_px f yo uvo (col + d div 3) (nat (d mod 3))"
      unfolding P_def lane_px_def h j by (simp add: add.assoc)
    then show ?thesis unfolding eq if_P[OF True] c m d_def by simp
  qed
qed

lemma neon_lane_body_stores:
  "stores (neon_lane_body f ro yo uvo col st) = stores st \<union> {ro + 3 * col ..< ro + 3 * col + 24}"
  unfolding neon_lane_body_eq by (simp add: vst3_u8_stores lane_loads_def algebra_simps)

lemma lanes_end_step: "col + 8 \<le> w \<Longrightarrow> lanes_end w (col + 8) = lanes_end w col"
proof -
  assume a: "col + 8 \<le> w"
  have "w - col = (w - (col + 8)) + 8" by simp
  then have "(w - col) div 8 = (w - (col + 8)) div 8 + 1"
    by (metis div_add_self2 zero_neq_numeral)
  moreover have "0 \<le> (w - (col + 8)) div 8" using a by simp
  ultimately show ?thesis by (simp add: lanes_end_def)
qed

lemma lanes_end_stop: "\<not> col + 8 \<le> w \<Longrightarrow> lanes_end w col = col"
proof -
  assume a: "\<not> col + 8 \<le> w"
  then have "w - col < 8" by simp
  then have "(w - col) div 8 \<le> 0"
    by simp
  then show ?thesis by (simp add: lanes_end_def)
qed

lemma lanes_end_ge: "col \<le> lanes_end w col"
  by (simp add: lanes_end_def)

lemma lanes_end_0: "0 \<le> w \<Longrightarrow> lanes_end w 0 = 8 * (w div 8)"
  by (simp add: lanes_end_def pos_imp_zdiv_nonneg_iff)

lemma if_range_merge:
  fixes k :: int
  assumes "a \<le> b" "b \<le> c"
  shows "(if b \<le> k \<and> k < c then X else (if a \<le> k \<and> k < b then X else Y)) =
         (if a \<le> k \<and> k < c then X else Y)"
  using assms by auto

lemma if_range_empty: "(if a \<le> k \<and> k < a then X else Y) = Y" for k :: int
  by auto

lemma neon_lanes_spec:
  assumes "0 \<le> col" "even col"
  shows "fst (neon_lanes f ro yo uvo col st) = lanes_end (width f) col \<and>
         (\<forall>k. rgbOutput (snd (neon_lanes f ro yo uvo col st)) k =
            (if ro + 3 * col \<le> k \<and> k < ro + 3 * lanes_end (width f) col
             then lane_px f yo uvo ((k - ro) div 3) (nat ((k - ro) mod 3))
             else rgbOutput st k)) \<and>
         stores (snd (neon_lanes f ro yo uvo col st)) =
           stores st \<union> {ro + 3 * col ..< ro + 3 * lanes_end (width f) col}"
  using assms
proof (induction f ro yo uvo col st rule: neon_lanes.induct)
  case (1 f ro yo uvo col st)
  show ?case
  proof (cases "col + 8 \<le> width f")
    case False
    then have e: "neon_lanes f ro yo uvo col st = (col, st)" by (simp add: neon_lanes.simps)
    show ?thesis unfolding e lanes_end_stop[OF False] if_range_empty by simp
  next
    case True
    let ?st' = "neon_lane_body f ro yo uvo col st"
    let ?E = "lanes_end (width f) col"
    have unf: "neon_lanes f ro yo uvo col st = neon_lanes f ro yo uvo (col + 8) ?st'"
      using True by (simp add: neon_lanes.simps[of f ro yo uvo col])
    have c8: "0 \<le> col + 8" "even (col + 8)" using "1.prems" by simp_all
    have IH: "fst (neon_lanes f ro yo uvo (col + 8) ?st') = ?E \<and>
         (\<forall>k. rgbOutput (snd (neon_lanes f ro yo uvo (col + 8) ?st')) k =
            (if ro + 3 * (col + 8) \<le> k \<and> k < ro + 3 * ?E
             then lane_px f yo uvo ((k - ro) div 3) (nat ((k - ro) mod 3))
             else rgbOutput ?st' k)) \<and>
         stores (snd (neon_lanes f ro yo uvo (col + 8) ?st')) =
           stores ?st' \<union> {ro + 3 * (col + 8) ..< ro + 3 * ?E}"
      using "1.IH"[OF True c8] unfolding lanes_end_step[OF True] .
    have E: "col + 8 \<le> ?E" using lanes_end_ge[of "col + 8" "width f"] lanes_end_step[OF True] by simp
    have b24: "ro + 3 * col + 24 = ro + 3 * (col + 8)" by simp
    have le1: "ro + 3 * col \<le> ro + 3 * (col + 8)" by simp
    have le2: "ro + 3 * (col + 8) \<le> ro + 3 * ?E" using E by simp
    have out_ok: "rgbOutput (snd (neon_lanes f ro yo uvo col st)) k =
            (if ro + 3 * col \<le> k \<and> k < ro + 3 * ?E
             then lane_px f yo uvo ((k - ro) div 3) (nat ((k - ro) mod 3))
             else rgbOutput st k)" for k
    proof -
      have a: "rgbOutput (snd (neon_lanes f ro yo uvo col st)) k =
            (if ro + 3 * (col + 8) \<le> k \<and> k < ro + 3 * ?E
             then lane_px f yo uvo ((k - ro) div 3) (nat ((k - ro) mod 3))
             else rgbOutput ?st' k)"
        unfolding unf using IH by blast
      have b: "rgbOutput ?st' k = (if ro + 3 * col \<le> k \<and> k < ro + 3 * (col + 8)
            then lane_px f yo uvo ((k - ro) div 3) (nat ((k - ro) mod 3))
            else rgbOutput st k)"
        using neon_lane_body_out[OF "1.prems", of f ro yo uvo st k] unfolding b24 .
      show ?thesis unfolding a b by (rule if_range_merge[OF le1 le2])
    qed
    have st_ok: "stores (snd (neon_lanes f ro yo uvo col st)) =
           stores st \<union> {ro + 3 * col ..< ro + 3 * ?E}"
    proof -
      have "stores (snd (neon_lanes f ro yo uvo col st)) =
           stores ?st' \<union> {ro + 3 * (col + 8) ..< ro + 3 * ?E}"
        unfolding unf using IH by blast
      also have "\<dots> = stores st \<union> ({ro + 3 * col ..< ro + 3 * (col + 8)} \<union> {ro + 3 * (col + 8) ..< ro + 3 * ?E})"
        unfolding neon_lane_body_stores b24 by (simp only: Un_assoc)
      also have "{ro + 3 * col ..< ro + 3 * (col + 8)} \<union> {ro + 3 * (col + 8) ..< ro + 3 * ?E}
                 = {ro + 3 * col ..< ro + 3 * ?E}"
        by (rule ivl_disj_un_two(3)[OF le1 le2])
      finally show ?thesis .
    qed
    have "fst (neon_lanes f ro yo uvo col st) = ?E" unfolding unf using IH by blast
    then show ?thesis using out_ok st_ok by blast
  qed
qed

lemma upd3_apply:
  "(g(i := a, i + 1 := b, i + 2 := c)) k =
     (if i \<le> k \<and> k < i + 3 then pick3 (nat (k - i)) a b c else g (k::int))"
proof -
  consider "k < i" | "k = i" | "k = i + 1" | "k = i + 2" | "i + 3 \<le> k" by linarith
  then show ?thesis by cases (simp_all add: pick3_def)
qed

lemma neon_tail_body_upd:
  assumes "0 \<le> col"
  shows "rgbOutput (neon_tail_body f ro yo uvo col st) =
           (rgbOutput st)(ro + col * 3 := tail_px f yo uvo col 0,
                          ro + col * 3 + 1 := tail_px f yo uvo col 1,
                          ro + col * 3 + 2 := tail_px f yo uvo col 2)"
  using assms
  by (simp add: neon_tail_body_def Let_def tail_px_def scalar_pixel_def scalar_channel_def
      c_div_2_nonneg)

lemma pick3_fun: "ch < 3 \<Longrightarrow> pick3 ch (P 0) (P 1) (P 2) = P ch"
proof -
  assume "ch < 3"
  then consider "ch = 0" | "ch = 1" | "ch = 2" by linarith
  then show ?thesis by cases simp_all
qed

lemma neon_tail_body_out:
  assumes "0 \<le> col"
  shows "rgbOutput (neon_tail_body f ro yo uvo col st) k =
           (if ro + 3 * col \<le> k \<and> k < ro + 3 * col + 3
            then tail_px f yo uvo ((k - ro) div 3) (nat ((k - ro) mod 3))
            else rgbOutput st k)"
proof (cases "ro + 3 * col \<le> k \<and> k < ro + 3 * col + 3")
  case False
  have base: "ro + col * 3 = ro + 3 * col" by simp
  show ?thesis
    unfolding neon_tail_body_upd[OF assms] base upd3_apply if_not_P[OF False] ..
next
  case True
  have base: "ro + col * 3 = ro + 3 * col" by simp
  define d where "d = k - (ro + 3 * col)"
  have d: "0 \<le> d" "d < 3" using True by (simp_all add: d_def)
  have kd: "k - ro = 3 * col + d" by (simp add: d_def)
  have c: "(k - ro) div 3 = col" unfolding kd using d by simp
  have m: "(k - ro) mod 3 = d" unfolding kd using d by simp
  have "nat d < 3" using d by simp
  then have "pick3 (nat d) (tail_px f yo uvo col 0) (tail_px f yo uvo col 1) (tail_px f yo uvo col 2)
        = tail_px f yo uvo col (nat d)"
    by (rule pick3_fun)
  then show ?thesis
    unfolding neon_tail_body_upd[OF assms] base upd3_apply if_P[OF True] c m d_def .
qed

lemma neon_tail_body_stores:
  "stores (neon_tail_body f ro yo uvo col st) = stores st \<union> {ro + 3 * col ..< ro + 3 * col + 3}"
proof -
  have "{ro + 3 * col ..< ro + 3 * col + 3} = {ro + 3 * col, ro + 3 * col + 1, ro + 3 * col + 2}"
    by auto
  then show ?thesis by (simp add: neon_tail_body_def Let_def algebra_simps) blast
qed

lemma neon_tail_spec:
  assumes "0 \<le> col"
  shows "(\<forall>k. rgbOutput (neon_tail f ro yo uvo col st) k =
            (if ro + 3 * col \<le> k \<and> k < ro + 3 * max col (width f)
             then tail_px f yo uvo ((k - ro) div 3) (nat ((k - ro) mod 3))
             else rgbOutput st k)) \<and>
         stores (neon_tail f ro yo uvo col st) =
           stores st \<union> {ro + 3 * col ..< ro + 3 * max col (width f)}"
  using assms
proof (induction f ro yo uvo col st rule: neon_tail.induct)
  case (1 f ro yo uvo col st)
  show ?case
  proof (cases "col < width f")
    case False
    then have e: "neon_tail f ro yo uvo col st = st" by (simp add: neon_tail.simps)
    have m: "max col (width f) = col" using False by simp
    show ?thesis unfolding e m if_range_empty by simp
  next
    case True
    let ?st' = "neon_tail_body f ro yo uvo col st"
    let ?W = "max col (width f)"
    have unf: "neon_tail f ro yo uvo col st = neon_tail f ro yo uvo (col + 1) ?st'"
      using True by (simp add: neon_tail.simps[of f ro yo uvo col])
    have c1: "0 \<le> col + 1" using "1.prems" by simp
    have m: "max (col + 1) (width f) = ?W" using True by simp
    have IH: "(\<forall>k. rgbOutput (neon_tail f ro yo uvo (col + 1) ?st') k =
            (if ro + 3 * (col + 1) \<le> k \<and> k < ro + 3 * ?W
             then tail_px f yo uvo ((k - ro) div 3) (nat ((k - ro) mod 3))
             else rgbOutput ?st' k)) \<and>
         stores (neon_tail f ro yo uvo (col + 1) ?st') =
           stores ?st' \<union> {ro + 3 * (col + 1) ..< ro + 3 * ?W}"
      using "1.IH"[OF True c1] unfolding m .
    have b3: "ro + 3 * col + 3 = ro + 3 * (col + 1)" by simp
    have le1: "ro + 3 * col \<le> ro + 3 * (col + 1)" by simp
    have le2: "ro + 3 * (col + 1) \<le> ro + 3 * ?W" using True by simp
    have out_ok: "rgbOutput (neon_tail f ro yo uvo col st) k =
            (if ro + 3 * col \<le> k \<and> k < ro + 3 * ?W
             then tail_px f yo uvo ((k - ro) div 3) (nat ((k - ro) mod 3))
             else rgbOutput st k)" for k
    proof -
      have a: "rgbOutput (neon_tail f ro yo uvo col st) k =
            (if ro + 3 * (col + 1) \<le> k \<and> k < ro + 3 * ?W
             then tail_px f yo uvo ((k - ro) div 3) (nat ((k - ro) mod 3))
             else rgbOutput ?st' k)"
        unfolding unf using IH by blast
      have b: "rgbOutput ?st' k = (if ro + 3 * col \<le> k \<and> k < ro + 3 * (col + 1)
            then tail_px f yo uvo ((k - ro) div 3) (nat ((k - ro) mod 3))
            else rgbOutput st k)"
        using neon_tail_body_out[OF "1.prems", of f ro yo uvo st k] unfolding b3 .
      show ?thesis unfolding a b by (rule if_range_merge[OF le1 le2])
    qed
    have st_ok: "stores (neon_tail f ro yo uvo col st) =
           stores st \<union> {ro + 3 * col ..< ro + 3 * ?W}"
    proof -
      have "stores (neon_tail f ro yo uvo col st) =
           stores ?st' \<union> {ro + 3 * (col + 1) ..< ro + 3 * ?W}"
        unfolding unf using IH by blast
      also have "\<dots> = stores st \<union> ({ro + 3 * col ..< ro + 3 * (col + 1)} \<union> {ro + 3 * (col + 1) ..< ro + 3 * ?W})"
        unfolding neon_tail_body_stores b3 by (simp only: Un_assoc)
      also have "{ro + 3 * col ..< ro + 3 * (col + 1)} \<union> {ro + 3 * (col + 1) ..< ro + 3 * ?W}
                 = {ro + 3 * col ..< ro + 3 * ?W}"
        by (rule ivl_disj_un_two(3)[OF le1 le2])
      finally show ?thesis .
    qed
    show ?thesis using out_ok st_ok by blast
  qed
qed

lemma div3_less_iff: "(x::int) < 3 * L \<longleftrightarrow> x div 3 < L"
proof -
  have "x = 3 * (x div 3) + x mod 3" "0 \<le> x mod 3" "x mod 3 < 3" by simp_all
  then show ?thesis by linarith
qed

lemma lane_px_at:
  assumes "0 \<le> row"
  shows "lane_px f (row * yRowStride f) (c_div row 2 * uvRowStride f) c ch =
         neon_pixel (y_at f row c) (u_at f row c) (v_at f row c) ch"
  using assms
  by (simp add: lane_px_def y_at_def u_at_def v_at_def y_index_def uv_index_def c_div_2_nonneg)

lemma tail_px_at:
  assumes "0 \<le> row"
  shows "tail_px f (row * yRowStride f) (c_div row 2 * uvRowStride f) c ch =
         scalar_pixel (y_at f row c) (u_at f row c) (v_at f row c) ch"
  using assms
  by (simp add: tail_px_def y_at_def u_at_def v_at_def y_index_def uv_index_def c_div_2_nonneg)

lemma neon_row_body_spec:
  assumes "0 \<le> row" "0 \<le> width f"
  shows "(\<forall>k. rgbOutput (neon_row_body f row st) k =
            (if row * width f * 3 \<le> k \<and> k < row * width f * 3 + 3 * width f
             then neon_at f row ((k - row * width f * 3) div 3) (nat ((k - row * width f * 3) mod 3))
             else rgbOutput st k)) \<and>
         stores (neon_row_body f row st) =
           stores st \<union> {row * width f * 3 ..< row * width f * 3 + 3 * width f}"
proof -
  define ro where "ro = row * width f * 3"
  define yo where "yo = row * yRowStride f"
  define uvo where "uvo = c_div row 2 * uvRowStride f"
  define L where "L = 8 * (width f div 8)"
  obtain col st' where lanes: "neon_lanes f ro yo uvo 0 st = (col, st')"
    by (cases "neon_lanes f ro yo uvo 0 st")
  have LE: "lanes_end (width f) 0 = L" using assms(2) by (simp add: lanes_end_0 L_def)
  have L0: "0 \<le> L" using assms(2) by (simp add: L_def pos_imp_zdiv_nonneg_iff)
  have Lw: "L \<le> width f"
  proof -
    have "width f = 8 * (width f div 8) + width f mod 8" "0 \<le> width f mod 8" by simp_all
    then show ?thesis unfolding L_def by linarith
  qed
  have ls: "fst (neon_lanes f ro yo uvo 0 st) = L \<and>
         (\<forall>k. rgbOutput (snd (neon_lanes f ro yo uvo 0 st)) k =
            (if ro + 3 * 0 \<le> k \<and> k < ro + 3 * L
             then lane_px f yo uvo ((k - ro) div 3) (nat ((k - ro) mod 3))
             else rgbOutput st k)) \<and>
         stores (snd (neon_lanes f ro yo uvo 0 st)) = stores st \<union> {ro + 3 * 0 ..< ro + 3 * L}"
    using neon_lanes_spec[of 0 f ro yo uvo st] unfolding LE by simp
  have col: "col = L" using ls lanes by simp
  have out1: "rgbOutput st' k =
            (if ro \<le> k \<and> k < ro + 3 * L
             then lane_px f yo uvo ((k - ro) div 3) (nat ((k - ro) mod 3))
             else rgbOutput st k)" for k
    using ls lanes by simp
  have st1: "stores st' = stores st \<union> {ro ..< ro + 3 * L}" using ls lanes by simp
  have body: "neon_row_body f row st = neon_tail f ro yo uvo L st'"
    unfolding neon_row_body_def Let_def ro_def[symmetric] yo_def[symmetric] uvo_def[symmetric]
      lanes col by simp
  have mx: "max L (width f) = width f" using Lw by simp
  have ts: "(\<forall>k. rgbOutput (neon_tail f ro yo uvo L st') k =
            (if ro + 3 * L \<le> k \<and> k < ro + 3 * width f
             then tail_px f yo uvo ((k - ro) div 3) (nat ((k - ro) mod 3))
             else rgbOutput st' k)) \<and>
         stores (neon_tail f ro yo uvo L st') = stores st' \<union> {ro + 3 * L ..< ro + 3 * width f}"
    using neon_tail_spec[OF L0, of f ro yo uvo st'] unfolding mx .
  have le1: "ro \<le> ro + 3 * L" using L0 by simp
  have le2: "ro + 3 * L \<le> ro + 3 * width f" using Lw by simp
  have out: "rgbOutput (neon_row_body f row st) k =
            (if ro \<le> k \<and> k < ro + 3 * width f
             then neon_at f row ((k - ro) div 3) (nat ((k - ro) mod 3))
             else rgbOutput st k)" for k
  proof -
    let ?c = "(k - ro) div 3" and ?ch = "nat ((k - ro) mod 3)"
    have a: "rgbOutput (neon_row_body f row st) k =
            (if ro + 3 * L \<le> k \<and> k < ro + 3 * width f then tail_px f yo uvo ?c ?ch
             else rgbOutput st' k)"
      unfolding body using ts by blast
    consider "k < ro" | "ro \<le> k" "k < ro + 3 * L" | "ro + 3 * L \<le> k" "k < ro + 3 * width f"
      | "ro + 3 * width f \<le> k" by linarith
    then show ?thesis
    proof cases
      case 1
      then show ?thesis unfolding a out1 using le1 by simp
    next
      case 2
      then have "k - ro < 3 * L" by simp
      then have "?c < L" using div3_less_iff[of "k - ro" L] by blast
      then have "neon_at f row ?c ?ch = lane_px f yo uvo ?c ?ch"
        unfolding neon_at_def L_def[symmetric] yo_def uvo_def lane_px_at[OF assms(1)] by simp
      then show ?thesis unfolding a out1 using 2 le2 by simp
    next
      case 3
      then have "\<not> k - ro < 3 * L" by simp
      then have "\<not> ?c < L" using div3_less_iff[of "k - ro" L] by blast
      then have "neon_at f row ?c ?ch = tail_px f yo uvo ?c ?ch"
        unfolding neon_at_def L_def[symmetric] yo_def uvo_def tail_px_at[OF assms(1)] by simp
      then show ?thesis unfolding a using 3 le1 by simp
    next
      case 4
      then show ?thesis unfolding a out1 using le1 le2 by simp
    qed
  qed
  have "stores (neon_row_body f row st) = stores st \<union> ({ro ..< ro + 3 * L} \<union> {ro + 3 * L ..< ro + 3 * width f})"
    unfolding body using ts st1 by (simp only: Un_assoc)
  also have "{ro ..< ro + 3 * L} \<union> {ro + 3 * L ..< ro + 3 * width f} = {ro ..< ro + 3 * width f}"
    by (rule ivl_disj_un_two(3)[OF le1 le2])
  finally have sts: "stores (neon_row_body f row st) = stores st \<union> {ro ..< ro + 3 * width f}" .
  show ?thesis using out sts unfolding ro_def by blast
qed

lemma neon_rows_spec:
  assumes "0 \<le> row" "0 \<le> width f"
  shows "(\<forall>r c ch. row \<le> r \<and> r < height f \<and> 0 \<le> c \<and> c < width f \<and> ch < 3 \<longrightarrow>
            rgbOutput (neon_rows f row st) (rgb_offset f r c ch) = neon_at f r c ch) \<and>
         (\<forall>k. k < 3 * width f * row \<or> 3 * width f * max row (height f) \<le> k \<longrightarrow>
            rgbOutput (neon_rows f row st) k = rgbOutput st k) \<and>
         stores (neon_rows f row st) =
           stores st \<union> {3 * width f * row ..< 3 * width f * max row (height f)}"
  using assms
proof (induction f row st rule: neon_rows.induct)
  case (1 f row st)
  show ?case
  proof (cases "row < height f")
    case False
    then have e: "neon_rows f row st = st" by (simp add: neon_rows.simps)
    have m: "max row (height f) = row" using False by simp
    have "\<not> (row \<le> r \<and> r < height f)" for r using False by linarith
    then show ?thesis unfolding e m by auto
  next
    case True
    let ?st' = "neon_row_body f row st"
    define A where "A = 3 * width f * row"
    define B where "B = 3 * width f * (row + 1)"
    define C where "C = 3 * width f * height f"
    have unf: "neon_rows f row st = neon_rows f (row + 1) ?st'"
      using True by (simp add: neon_rows.simps[of f row])
    have r1: "0 \<le> row + 1" using "1.prems" by simp
    have m: "max row (height f) = height f" "max (row + 1) (height f) = height f"
      using True by simp_all
    have AB: "B = A + 3 * width f" by (simp add: A_def B_def algebra_simps)
    have ro: "row * width f * 3 = A" by (simp add: A_def)
    have BC: "B \<le> C"
    proof -
      have "row + 1 \<le> height f" using True by simp
      then have "(3 * width f) * (row + 1) \<le> (3 * width f) * height f"
        using "1.prems"(2) by (intro mult_left_mono) simp_all
      then show ?thesis by (simp add: B_def C_def)
    qed
    have ABle: "A \<le> B" using AB "1.prems"(2) by simp
    have IH1: "row + 1 \<le> r \<Longrightarrow> r < height f \<Longrightarrow> 0 \<le> c \<Longrightarrow> c < width f \<Longrightarrow> ch < 3 \<Longrightarrow>
            rgbOutput (neon_rows f (row + 1) ?st') (rgb_offset f r c ch) = neon_at f r c ch" for r c ch
      using "1.IH"[OF True r1 "1.prems"(2)] by blast
    have IH2: "k < B \<or> C \<le> k \<Longrightarrow> rgbOutput (neon_rows f (row + 1) ?st') k = rgbOutput ?st' k" for k
      using "1.IH"[OF True r1 "1.prems"(2)] unfolding m B_def C_def by blast
    have IH3: "stores (neon_rows f (row + 1) ?st') = stores ?st' \<union> {B ..< C}"
      using "1.IH"[OF True r1 "1.prems"(2)] unfolding m B_def C_def by blast
    have body_out: "rgbOutput ?st' k =
            (if A \<le> k \<and> k < B
             then neon_at f row ((k - A) div 3) (nat ((k - A) mod 3))
             else rgbOutput st k)" for k
      using neon_row_body_spec[OF "1.prems", of st] unfolding ro AB by blast
    have body_st: "stores ?st' = stores st \<union> {A ..< B}"
      using neon_row_body_spec[OF "1.prems", of st] unfolding ro AB by blast
    have part1: "rgbOutput (neon_rows f row st) (rgb_offset f r c ch) = neon_at f r c ch"
      if r: "row \<le> r" "r < height f" and c: "0 \<le> c" "c < width f" and ch: "ch < 3" for r c ch
    proof (cases "r = row")
      case True
      let ?k = "rgb_offset f row c ch"
      have k: "?k = A + (c * 3 + int ch)" by (simp add: rgb_offset_def A_def algebra_simps)
      have lt: "A \<le> ?k" "?k < B" using c ch unfolding k AB by simp_all
      have "rgbOutput (neon_rows f row st) ?k = rgbOutput ?st' ?k"
        unfolding unf using IH2[of ?k] lt by simp
      also have "\<dots> = neon_at f row ((?k - A) div 3) (nat ((?k - A) mod 3))"
        using lt by (simp add: body_out)
      also have "\<dots> = neon_at f row c ch"
        unfolding k using ch by (simp add: div3_offset mod3_offset)
      finally show ?thesis using True by simp
    next
      case False
      then have "row + 1 \<le> r" using r by simp
      then show ?thesis unfolding unf using IH1 r c ch by simp
    qed
    have part2: "rgbOutput (neon_rows f row st) k = rgbOutput st k"
      if k: "k < A \<or> C \<le> k" for k
    proof -
      have "k < B \<or> C \<le> k" using k ABle by linarith
      then have "rgbOutput (neon_rows f row st) k = rgbOutput ?st' k"
        unfolding unf by (rule IH2)
      moreover have "\<not> (A \<le> k \<and> k < B)" using k BC by linarith
      ultimately show ?thesis using body_out[of k] by simp
    qed
    have part3: "stores (neon_rows f row st) = stores st \<union> {A ..< C}"
    proof -
      have "stores (neon_rows f row st) = stores st \<union> ({A ..< B} \<union> {B ..< C})"
        unfolding unf IH3 body_st by (simp only: Un_assoc)
      also have "{A ..< B} \<union> {B ..< C} = {A ..< C}" by (rule ivl_disj_un_two(3)[OF ABle BC])
      finally show ?thesis .
    qed
    show ?thesis unfolding m using part1 part2 part3 unfolding A_def C_def by blast
  qed
qed

lemma neon_out:
  assumes "0 \<le> row" "row < height f" "0 \<le> col" "col < width f" "ch < 3"
  shows "rgbOutput (convertYuv420ToRgbNeon f st) (rgb_offset f row col ch) = neon_at f row col ch"
proof -
  have w: "0 \<le> width f" using assms by simp
  show ?thesis
    unfolding convertYuv420ToRgbNeon_def
    using neon_rows_spec[of 0 f st] w assms by blast
qed

lemma neon_frame:
  assumes "0 \<le> width f" "k < 0 \<or> 3 * width f * max 0 (height f) \<le> k"
  shows "rgbOutput (convertYuv420ToRgbNeon f st) k = rgbOutput st k"
proof -
  have "k < 3 * width f * 0 \<or> 3 * width f * max 0 (height f) \<le> k" using assms(2) by simp
  then show ?thesis
    unfolding convertYuv420ToRgbNeon_def
    using neon_rows_spec[of 0 f st] assms(1) by blast
qed

lemma neon_stores:
  assumes "0 \<le> width f"
  shows "stores (convertYuv420ToRgbNeon f st) = stores st \<union> {0 ..< 3 * width f * max 0 (height f)}"
  unfolding convertYuv420ToRgbNeon_def
  using neon_rows_spec[of 0 f st] assms by simp

lemma wrap16_stb: "wrap16 x = signed_take_bit 15 x"
  by (simp add: wrap16_def signed_take_bit_eq_take_bit_shift take_bit_eq_mod)

lemma wrap16_id: "-32768 \<le> x \<Longrightarrow> x \<le> 32767 \<Longrightarrow> wrap16 x = x"
  by (simp add: wrap16_def)

lemma uint_byte_range: "0 \<le> uint (b::byte)" "uint (b::byte) \<le> 255"
  using uint_bounded[of b] by simp_all

lemma sint_ucast_byte: "sint (ucast (b::byte) :: 16 word) = uint b"
proof -
  have "sint (ucast b :: 16 word) = wrap16 (uint b)"
    by (simp add: signed_ucast_eq wrap16_stb)
  then show ?thesis using uint_byte_range[of b] by (simp add: wrap16_id)
qed

lemma sint_sub16: "sint (a - b :: 16 word) = wrap16 (sint a - sint b)"
  by (simp add: sint_word_ariths wrap16_stb)

lemma sint_add16: "sint (a + b :: 16 word) = wrap16 (sint a + sint b)"
  by (simp add: sint_word_ariths wrap16_stb)

lemma sint_mul16: "sint (a * b :: 16 word) = wrap16 (sint a * sint b)"
  by (simp add: sint_word_ariths wrap16_stb)

lemma sint_centered: "sint (ucast (b::byte) - 128 :: 16 word) = uint b - 128"
  using uint_byte_range[of b] by (simp add: sint_sub16 sint_ucast_byte wrap16_id)

lemma sint_shr8: "sint (signed_drop_bit 8 (w :: 16 word)) = sint w div 256"
  by (simp add: sint_signed_drop_bit_eq drop_bit_eq_div)

lemma wrap16_range: "- 32768 \<le> wrap16 x" "wrap16 x \<le> 32767"
  by (simp_all add: wrap16_def)

lemma q8_range: "- 128 \<le> wrap16 x div 256" "wrap16 x div 256 \<le> 127"
  using wrap16_range[of x] by simp_all

lemma sint_contrib:
  assumes "sint (c :: 16 word) = ci"
  shows "sint (signed_drop_bit 8 (c * (ucast (b::byte) - 128))) =
           wrap16 (ci * (uint b - 128)) div 256"
  unfolding sint_shr8 sint_mul16 sint_centered assms ..

lemma wrap16_luma_add:
  assumes "- 128 \<le> q" "q \<le> 127"
  shows "wrap16 (uint (y::byte) + q) = uint y + q"
  using uint_byte_range[of y] assms by (intro wrap16_id) linarith+

lemma wrap16_luma_sub:
  assumes "- 128 \<le> q" "q \<le> 127"
  shows "wrap16 (uint (y::byte) - q) = uint y - q"
  using uint_byte_range[of y] assms by (intro wrap16_id) linarith+

lemma wrap16_luma_sub2:
  assumes "- 128 \<le> q" "q \<le> 127" "- 128 \<le> p" "p \<le> 127"
  shows "wrap16 (uint (y::byte) - q - p) = uint y - q - p"
  using uint_byte_range[of y] assms by (intro wrap16_id) linarith+

lemma sint_lane_r: "sint (lane_r y u v) = uint y + wrap16 (359 * (uint v - 128)) div 256"
proof -
  have c: "sint (359 :: 16 word) = 359" by simp
  show ?thesis
    unfolding lane_r_def sint_add16 sint_ucast_byte sint_contrib[OF c]
    by (rule wrap16_luma_add[OF q8_range])
qed

lemma sint_lane_b: "sint (lane_b y u v) = uint y + wrap16 (454 * (uint u - 128)) div 256"
proof -
  have c: "sint (454 :: 16 word) = 454" by simp
  show ?thesis
    unfolding lane_b_def sint_add16 sint_ucast_byte sint_contrib[OF c]
    by (rule wrap16_luma_add[OF q8_range])
qed

lemma sint_lane_g:
  "sint (lane_g y u v) =
     uint y - wrap16 (88 * (uint u - 128)) div 256 - wrap16 (183 * (uint v - 128)) div 256"
proof -
  have c2: "sint (88 :: 16 word) = 88" by simp
  have c3: "sint (183 :: 16 word) = 183" by simp
  show ?thesis
    unfolding lane_g_def sint_sub16 sint_ucast_byte sint_contrib[OF c2] sint_contrib[OF c3]
      wrap16_luma_sub[OF q8_range]
    by (rule wrap16_luma_sub2[OF q8_range q8_range])
qed

lemma ucast_16_8: "(ucast (w :: 16 word) :: byte) = of_int (sint w)"
proof -
  have "is_down (ucast :: 16 word \<Rightarrow> byte)" by (simp add: is_down)
  then have "(ucast :: 16 word \<Rightarrow> byte) = scast" by (rule down_cast_same)
  then have "(ucast w :: byte) = scast w" by simp
  also have "\<dots> = of_int (sint w)" by (rule scast_eq)
  finally show ?thesis .
qed

lemma vqmovun_lane_clamp: "vqmovun_lane w = clamp255 (sint w)"
  unfolding vqmovun_lane_def clamp255_def ucast_16_8 by simp

lemma uint_clamp255: "uint (clamp255 x) = (if x < 0 then 0 else if x > 255 then 255 else x)"
  by (simp add: clamp255_def uint_word_of_int take_bit_eq_mod)

lemma byte_range_cases:
  assumes "-128 \<le> k" "k \<le> 127"
    and "list_all P [-128..-2]" "P (-1)" "P 0" "P 1" "list_all P [2..127]"
  shows "P (k::int)"
proof -
  consider "k \<le> -2" | "k = -1" | "k = 0" | "k = 1" | "2 \<le> k" by linarith
  then show ?thesis
  proof cases
    case 1
    with assms(1,3) show ?thesis by (simp only: list_all_iff set_upto atLeastAtMost_iff)
  next
    case 5
    with assms(2,7) show ?thesis by (simp only: list_all_iff set_upto atLeastAtMost_iff)
  qed (use assms in simp_all)
qed

lemmas f32_eval = f32_mul_to_int_def f32_round_def bit_length.simps c_div_def

lemma tab_r_all:
  assumes "-128 \<le> k" "k \<le> 127"
  shows "tab_r k"
proof (rule byte_range_cases[OF assms])
  show "list_all tab_r [-128..-2]" by simp (simp add: tab_r_def mul_1_402f_def f32_eval)
  show "list_all tab_r [2..127]" by simp (simp add: tab_r_def mul_1_402f_def f32_eval)
qed (simp_all add: tab_r_def mul_1_402f_def f32_eval)

lemma tab_b_all:
  assumes "-128 \<le> k" "k \<le> 127"
  shows "tab_b k"
proof (rule byte_range_cases[OF assms])
  show "list_all tab_b [-128..-2]" by simp (simp add: tab_b_def mul_1_772f_def f32_eval)
  show "list_all tab_b [2..127]" by simp (simp add: tab_b_def mul_1_772f_def f32_eval)
qed (simp_all add: tab_b_def mul_1_772f_def f32_eval)

lemma tab_g1_all:
  assumes "-128 \<le> k" "k \<le> 127"
  shows "tab_g1 k"
proof (rule byte_range_cases[OF assms])
  show "list_all tab_g1 [-128..-2]" by simp (simp add: tab_g1_def mul_0_344136f_def f32_eval)
  show "list_all tab_g1 [2..127]" by simp (simp add: tab_g1_def mul_0_344136f_def f32_eval)
qed (simp_all add: tab_g1_def mul_0_344136f_def f32_eval)

lemma tab_g2_all:
  assumes "-128 \<le> k" "k \<le> 127"
  shows "tab_g2 k"
proof (rule byte_range_cases[OF assms])
  show "list_all tab_g2 [-128..-2]" by simp (simp add: tab_g2_def mul_0_714136f_def f32_eval)
  show "list_all tab_g2 [2..127]" by simp (simp add: tab_g2_def mul_0_714136f_def f32_eval)
qed (simp_all add: tab_g2_def mul_0_714136f_def f32_eval)

lemma centered_range: "- 128 \<le> uint (b::byte) - 128" "uint (b::byte) - 128 \<le> 127"
  using uint_byte_range[of b] by simp_all

lemma mul_1_402f_exact: "mul_1_402f (uint (v::byte) - 128) = c_div (1402 * (uint v - 128)) 1000"
  using tab_r_all[OF centered_range, of v] by (simp add: tab_r_def Let_def)

lemma mul_1_772f_exact: "mul_1_772f (uint (u::byte) - 128) = c_div (1772 * (uint u - 128)) 1000"
  using tab_b_all[OF centered_range, of u] by (simp add: tab_b_def Let_def)

lemma mul_0_344136f_exact:
  "mul_0_344136f (uint (u::byte) - 128) = c_div (344136 * (uint u - 128)) 1000000"
  using tab_g1_all[OF centered_range, of u] by (simp add: tab_g1_def Let_def)

lemma mul_0_714136f_exact:
  "mul_0_714136f (uint (v::byte) - 128) = c_div (714136 * (uint v - 128)) 1000000"
  using tab_g2_all[OF centered_range, of v] by (simp add: tab_g2_def Let_def)

lemma q8_r_diff:
  assumes "- 91 \<le> k" "k \<le> 91"
  shows "- 2 \<le> wrap16 (359 * k) div 256 - mul_1_402f k" "wrap16 (359 * k) div 256 - mul_1_402f k \<le> 1"
proof -
  have w: "wrap16 (359 * k) = 359 * k" using assms by (intro wrap16_id) linarith+
  have "tab_r k" using assms by (intro tab_r_all) linarith+
  then show "- 2 \<le> wrap16 (359 * k) div 256 - mul_1_402f k"
    "wrap16 (359 * k) div 256 - mul_1_402f k \<le> 1"
    unfolding w tab_r_def Let_def using assms by blast+
qed

lemma q8_b_diff:
  assumes "- 72 \<le> k" "k \<le> 72"
  shows "- 2 \<le> wrap16 (454 * k) div 256 - mul_1_772f k" "wrap16 (454 * k) div 256 - mul_1_772f k \<le> 1"
proof -
  have w: "wrap16 (454 * k) = 454 * k" using assms by (intro wrap16_id) linarith+
  have "tab_b k" using assms by (intro tab_b_all) linarith+
  then show "- 2 \<le> wrap16 (454 * k) div 256 - mul_1_772f k"
    "wrap16 (454 * k) div 256 - mul_1_772f k \<le> 1"
    unfolding w tab_b_def Let_def using assms by blast+
qed

lemma q8_g1_diff:
  assumes "- 128 \<le> k" "k \<le> 127"
  shows "- 1 \<le> wrap16 (88 * k) div 256 - mul_0_344136f k" "wrap16 (88 * k) div 256 - mul_0_344136f k \<le> 0"
proof -
  have w: "wrap16 (88 * k) = 88 * k" using assms by (intro wrap16_id) linarith+
  have "tab_g1 k" using assms by (rule tab_g1_all)
  then show "- 1 \<le> wrap16 (88 * k) div 256 - mul_0_344136f k"
    "wrap16 (88 * k) div 256 - mul_0_344136f k \<le> 0"
    unfolding w tab_g1_def Let_def by blast+
qed

lemma q8_g2_diff:
  assumes "- 128 \<le> k" "k \<le> 127"
  shows "- 2 \<le> wrap16 (183 * k) div 256 - mul_0_714136f k" "wrap16 (183 * k) div 256 - mul_0_714136f k \<le> 1"
proof -
  have w: "wrap16 (183 * k) = 183 * k" using assms by (intro wrap16_id) linarith+
  have "tab_g2 k" using assms by (rule tab_g2_all)
  then show "- 2 \<le> wrap16 (183 * k) div 256 - mul_0_714136f k"
    "wrap16 (183 * k) div 256 - mul_0_714136f k \<le> 1"
    unfolding w tab_g2_def Let_def by blast+
qed

lemma clamp255_lipschitz: "\<bar>uint (clamp255 a) - uint (clamp255 b)\<bar> \<le> \<bar>a - b\<bar>"
  unfolding uint_clamp255 by (simp split: if_splits)

lemma neon_pixel_clamp: "neon_pixel y u v ch = clamp255 (sint (lane_channel y u v ch))"
  by (simp add: neon_pixel_def vqmovun_lane_clamp)

lemma pixel_diff:
  assumes u: "- 72 \<le> uint u - 128" "uint u - 128 \<le> 72"
    and v: "- 91 \<le> uint v - 128" "uint v - 128 \<le> 91"
  shows "\<bar>uint (neon_pixel y u v ch) - uint (scalar_pixel y u v ch)\<bar> \<le> 3"
proof -
  let ?ku = "uint u - 128" and ?kv = "uint v - 128"
  have d: "\<bar>sint (lane_channel y u v ch) - scalar_channel y u v ch\<bar> \<le> 3"
  proof -
    note r = q8_r_diff[OF v]
    note b = q8_b_diff[OF u]
    note g1 = q8_g1_diff[OF centered_range, of u]
    note g2 = q8_g2_diff[OF centered_range, of v]
    consider "ch = 0" | "ch = 1" | "ch \<noteq> 0 \<and> ch \<noteq> 1" by blast
    then show ?thesis
    proof cases
      case 1
      then show ?thesis using r
        by (simp add: lane_channel_def scalar_channel_def pick3_def sint_lane_r scalar_r_def
            del: distrib_left_numeral right_diff_distrib_numeral)
    next
      case 2
      then show ?thesis using g1 g2
        by (simp add: lane_channel_def scalar_channel_def pick3_def sint_lane_g scalar_g_def
            del: distrib_left_numeral right_diff_distrib_numeral)
    next
      case 3
      then show ?thesis using b
        by (simp add: lane_channel_def scalar_channel_def pick3_def sint_lane_b scalar_b_def
            del: distrib_left_numeral right_diff_distrib_numeral)
    qed
  qed
  have "\<bar>uint (neon_pixel y u v ch) - uint (scalar_pixel y u v ch)\<bar>
        \<le> \<bar>sint (lane_channel y u v ch) - scalar_channel y u v ch\<bar>"
    unfolding neon_pixel_clamp scalar_pixel_def by (rule clamp255_lipschitz)
  then show ?thesis using d by linarith
qed

lemma mul_f_zero [simp]:
  "mul_1_402f 0 = 0" "mul_1_772f 0 = 0" "mul_0_344136f 0 = 0" "mul_0_714136f 0 = 0"
  by (simp_all add: mul_1_402f_def mul_1_772f_def mul_0_344136f_def mul_0_714136f_def
      f32_mul_to_int_def)

lemma clamp255_uint [simp]: "clamp255 (uint (y::byte)) = y"
  using uint_byte_range[of y] by (simp add: clamp255_def)

lemma scalar_pixel_neutral: "scalar_pixel y 128 128 ch = y"
  by (simp add: scalar_pixel_def scalar_channel_def pick3_def scalar_r_def scalar_g_def scalar_b_def)

lemma neon_pixel_neutral: "neon_pixel y 128 128 ch = y"
  by (simp add: neon_pixel_clamp lane_channel_def pick3_def sint_lane_r sint_lane_g sint_lane_b
      wrap16_def)

lemma offset_decompose:
  assumes "0 \<le> width f" "0 \<le> k" "k < width f * height f * 3"
  shows "\<exists>row col ch. 0 \<le> row \<and> row < height f \<and> 0 \<le> col \<and> col < width f \<and> ch < 3 \<and>
           k = rgb_offset f row col ch"
proof -
  define w where "w = width f"
  define h where "h = height f"
  have w: "0 < w"
  proof (rule ccontr)
    assume "\<not> 0 < w"
    then have "w = 0" using assms(1) by (simp add: w_def)
    then show False using assms(2,3) by (simp add: w_def)
  qed
  define p where "p = k div 3"
  define ch where "ch = nat (k mod 3)"
  define row where "row = p div w"
  define col where "col = p mod w"
  have k: "k = p * 3 + int ch" by (simp add: p_def ch_def)
  have ch: "ch < 3" by (simp add: ch_def)
  have p0: "0 \<le> p" using assms(2) by (simp add: p_def)
  have "k < (w * h) * 3" using assms(3) by (simp add: w_def h_def)
  then have ph: "p < w * h" unfolding p_def using div3_less_iff[of k "w * h"] by (simp add: mult.commute)
  have p: "p = row * w + col" by (simp add: row_def col_def)
  have col: "0 \<le> col" "col < w" using w by (simp_all add: col_def)
  have row0: "0 \<le> row" using p0 w by (simp add: row_def pos_imp_zdiv_nonneg_iff)
  have "row < h"
  proof (rule ccontr)
    assume "\<not> row < h"
    then have "h \<le> row" by simp
    then have "w * h \<le> w * row" using w by (intro mult_left_mono) simp_all
    also have "\<dots> \<le> p" using col p by (simp add: mult.commute)
    finally show False using ph by simp
  qed
  then show ?thesis using row0 col ch k p unfolding rgb_offset_def w_def h_def by blast
qed

lemma scalar_rows_no_width:
  assumes "width f \<le> 0"
  shows "scalar_rows f row idx st = (idx, st)"
  using assms
proof (induction f row idx st rule: scalar_rows.induct)
  case (1 f row idx st)
  have c: "scalar_cols f row 0 idx st = (idx, st)"
    using "1.prems" by (simp add: scalar_cols.simps)
  show ?case
  proof (cases "row < height f")
    case True
    then show ?thesis using "1.IH"[OF True c[symmetric] "1.prems"] c
      by (simp add: scalar_rows.simps[of f row])
  next
    case False
    then show ?thesis by (simp add: scalar_rows.simps)
  qed
qed

lemma scalar_degenerate:
  assumes "width f \<le> 0 \<or> height f \<le> 0"
  shows "convertYuv420ToRgbScalar f st = st"
proof (cases "width f \<le> 0")
  case True
  then show ?thesis by (simp add: convertYuv420ToRgbScalar_def scalar_rows_no_width)
next
  case False
  then have "\<not> 0 < height f" using assms by simp
  then show ?thesis by (simp add: convertYuv420ToRgbScalar_def scalar_rows.simps)
qed

lemma neon_row_body_no_width:
  assumes "width f \<le> 0"
  shows "neon_row_body f row st = st"
  using assms by (simp add: neon_row_body_def Let_def neon_lanes.simps neon_tail.simps)

lemma neon_rows_no_width:
  assumes "width f \<le> 0"
  shows "neon_rows f row st = st"
  using assms
proof (induction f row st rule: neon_rows.induct)
  case (1 f row st)
  show ?case
  proof (cases "row < height f")
    case True
    then show ?thesis using "1.IH"[OF True "1.prems"] "1.prems"
      by (simp add: neon_rows.simps[of f row] neon_row_body_no_width)
  next
    case False
    then show ?thesis by (simp add: neon_rows.simps)
  qed
qed

lemma neon_degenerate:
  assumes "width f \<le> 0 \<or> height f \<le> 0"
  shows "convertYuv420ToRgbNeon f st = st"
proof (cases "width f \<le> 0")
  case True
  then show ?thesis by (simp add: convertYuv420ToRgbNeon_def neon_rows_no_width)
next
  case False
  then have "\<not> 0 < height f" using assms by simp
  then show ?thesis by (simp add: convertYuv420ToRgbNeon_def neon_rows.simps)
qed

section \<open>The claims\<close>

text \<open>
  C10. Degenerate geometry: when the width or the height is zero or negative, neither
  path enters a loop body. The state after the call, output buffer and access trace
  alike, is the state before it: no byte is stored and no plane byte is loaded. This
  holds for the scalar path, the NEON path and the dispatching function.
\<close>

theorem degenerate_geometry_no_effect:
  assumes "width f \<le> 0 \<or> height f \<le> 0"
  shows "convertYuv420ToRgbScalar f st = st \<and> convertYuv420ToRgbNeon f st = st \<and>
         convertYuv420ToRgb use_neon f st = st"
  using assms by (simp add: convertYuv420ToRgb_def scalar_degenerate neon_degenerate)

theorem degenerate_geometry_no_effect_witness:
  "convertYuv420ToRgbScalar (const_frame 0 4 0 0 1 2 3) init_state = init_state \<and>
   convertYuv420ToRgbNeon (const_frame 0 4 0 0 1 2 3) init_state = init_state \<and>
   convertYuv420ToRgb True (const_frame 0 4 0 0 1 2 3) init_state = init_state \<and>
   convertYuv420ToRgbNeon (const_frame 16 (- 1) 16 8 1 2 3) init_state = init_state \<and>
   trace (convertYuv420ToRgbNeon (const_frame 16 (- 1) 16 8 1 2 3) init_state) = []"
  using degenerate_geometry_no_effect[of "const_frame 0 4 0 0 1 2 3" init_state True]
    degenerate_geometry_no_effect[of "const_frame 16 (- 1) 16 8 1 2 3" init_state True]
  by (simp add: const_frame_def init_state_def)

end
